theory Spec2Isabelle
  imports Complex_Main "HOL-Library.Word"
begin

unbundle bit_operations_syntax

section \<open>String helpers used by the gateway services\<close>

text \<open>
  JavaScript strings are modelled as \<^typ>\<open>string\<close>. \<open>startsWith\<close> is the prefix test,
  \<open>includes_str\<close> is \<open>String.prototype.includes\<close> (a contiguous substring),
  \<open>split_first c s\<close> is \<open>s.split(c)[0]\<close>, \<open>trim\<close> strips white space at both ends and
  \<open>replace_all pat rep s\<close> is \<open>s.replace(new RegExp(pat, 'g'), rep)\<close> for a literal,
  non-empty pattern and a replacement text without dollar signs (which \<open>replace\<close> would
  read as references to the match).
\<close>

fun startsWith :: "string \<Rightarrow> string \<Rightarrow> bool" where
  "startsWith s [] = True"
| "startsWith [] (p # ps) = False"
| "startsWith (c # cs) (p # ps) = (c = p \<and> startsWith cs ps)"

fun includes_str :: "string \<Rightarrow> string \<Rightarrow> bool" where
  "includes_str [] sub = (sub = [])"
| "includes_str (c # cs) sub = (startsWith (c # cs) sub \<or> includes_str cs sub)"

definition split_first :: "char \<Rightarrow> string \<Rightarrow> string" where
  "split_first c s = takeWhile (\<lambda>x. x \<noteq> c) s"

definition is_space :: "char \<Rightarrow> bool" where
  "is_space c = (c \<in> set [CHR '' '', CHR 0x09, CHR 0x0A, CHR 0x0B, CHR 0x0C, CHR 0x0D])"

definition trim :: "string \<Rightarrow> string" where
  "trim s = rev (dropWhile is_space (rev (dropWhile is_space s)))"

function replace_all :: "string \<Rightarrow> string \<Rightarrow> string \<Rightarrow> string" where
  "replace_all pat rep s =
     (if s = [] \<or> pat = [] then s
      else if startsWith s pat then rep @ replace_all pat rep (drop (length pat) s)
      else hd s # replace_all pat rep (tl s))"
  by pat_completeness auto
termination
  by (relation "measure (\<lambda>(pat, rep, s). length s)") auto

text \<open>\<open>a || b\<close> on strings: the empty string is falsy.\<close>

definition or_else :: "string \<Rightarrow> string \<Rightarrow> string" where
  "or_else a b = (if a = [] then b else a)"

text \<open>
  A JavaScript \<open>Map\<close> whose iteration order matters is a list of pairs in insertion order:
  \<open>get\<close> is \<^const>\<open>map_of\<close>, \<open>set\<close> keeps the place of an existing key and appends a new
  one, \<open>delete\<close> removes the key.
\<close>

fun map_set :: "string \<Rightarrow> 'v \<Rightarrow> (string \<times> 'v) list \<Rightarrow> (string \<times> 'v) list" where
  "map_set k v [] = [(k, v)]"
| "map_set k v ((k', v') # rest) = (if k' = k then (k, v) # rest else (k', v') # map_set k v rest)"

definition map_delete :: "string \<Rightarrow> (string \<times> 'v) list \<Rightarrow> (string \<times> 'v) list" where
  "map_delete k m = filter (\<lambda>p. fst p \<noteq> k) m"

section \<open>Rate limiter (advanced-rate-limit.service.ts)\<close>

text \<open>
  Times are milliseconds since the epoch and counts are integers; both are JavaScript
  numbers in the source and are modelled as \<^typ>\<open>int\<close>. The fields of the source's
  interfaces keep their names behind a prefix that tells the records apart:
  \<open>w_\<close> for \<open>RateLimitWindow\<close>, \<open>r_\<close> for \<open>RateLimitResult\<close>, \<open>rule_\<close> for
  \<open>RateLimitRule\<close>.
\<close>

record RateLimitWindow =
  w_count :: int
  w_resetTime :: int
  w_firstRequest :: int

text \<open>\<open>remainingHits\<close> starts as \<open>Infinity\<close> in \<open>checkRateLimit\<close>.\<close>

datatype hits = Infinity | Hits int

fun hits_less :: "hits \<Rightarrow> hits \<Rightarrow> bool" where
  "hits_less (Hits a) (Hits b) = (a < b)"
| "hits_less (Hits a) Infinity = True"
| "hits_less Infinity h = False"

record RateLimitResult =
  r_allowed :: bool
  r_totalHits :: int
  r_remainingHits :: hits
  r_resetTime :: int
  r_retryAfter :: "int option"

text \<open>
  The part of a \<open>FastifyRequest\<close> that the limiter and the gateway read. The header and
  query objects are lists of pairs in the order of \<open>Object.entries\<close>, looked up with
  \<^const>\<open>map_of\<close>. A header value is a string or an array of strings; \<open>req_user\<close> is the
  \<open>sub\<close> of the authenticated user, when there is one.
\<close>

datatype header_value = Single string | Multi "string list"

record FastifyRequest =
  req_url :: string
  req_method :: string
  req_headers :: "(string \<times> header_value) list"
  req_query :: "(string \<times> string) list"
  req_body :: "string option"
  req_ip :: string
  req_user :: "string option"

record RateLimitRule =
  rule_key :: string
  rule_limit :: int
  rule_window :: int
  rule_skipIf :: "(FastifyRequest \<Rightarrow> bool) option"

type_synonym windows = "string \<rightharpoonup> RateLimitWindow"

text \<open>\<open>Math.ceil(x / 1000)\<close> on an integer number of milliseconds.\<close>

definition ceil_div1000 :: "int \<Rightarrow> int" where
  "ceil_div1000 x = - ((- x) div 1000)"

definition checkSingleRule ::
  "windows \<Rightarrow> string \<Rightarrow> RateLimitRule \<Rightarrow> int \<Rightarrow> RateLimitResult \<times> windows" where
  "checkSingleRule ws k rule now =
     (let fresh = \<lparr>w_count = 0, w_resetTime = now + rule_window rule, w_firstRequest = now\<rparr>;
          (w, ws1) = (case ws k of
                        None \<Rightarrow> (fresh, ws(k \<mapsto> fresh))
                      | Some w0 \<Rightarrow> if now \<ge> w_resetTime w0 then (fresh, ws(k \<mapsto> fresh))
                                   else (w0, ws))
      in if w_count w \<ge> rule_limit rule
         then (\<lparr>r_allowed = False, r_totalHits = w_count w, r_remainingHits = Hits 0,
                r_resetTime = w_resetTime w,
                r_retryAfter = Some (ceil_div1000 (w_resetTime w - now))\<rparr>, ws1)
         else (let w' = w\<lparr>w_count := w_count w + 1\<rparr>
               in (\<lparr>r_allowed = True, r_totalHits = w_count w',
                    r_remainingHits = Hits (rule_limit rule - w_count w'),
                    r_resetTime = w_resetTime w', r_retryAfter = None\<rparr>, ws1(k \<mapsto> w'))))"

text \<open>\<open>getClientIp\<close>: \<open>X-Forwarded-For\<close> first, then \<open>X-Real-IP\<close>, then the peer address.\<close>

definition header_truthy :: "header_value option \<Rightarrow> bool" where
  "header_truthy h = (case h of None \<Rightarrow> False | Some (Single s) \<Rightarrow> s \<noteq> [] | Some (Multi xs) \<Rightarrow> True)"

definition getClientIp :: "FastifyRequest \<Rightarrow> string" where
  "getClientIp req =
     (let xff = map_of (req_headers req) ''x-forwarded-for'';
          xri = map_of (req_headers req) ''x-real-ip''
      in if header_truthy xff
         then (case xff of
                 Some (Single s) \<Rightarrow> or_else (trim (split_first CHR '','' s)) ''unknown''
               | Some (Multi []) \<Rightarrow> ''unknown''
               | Some (Multi (s # ss)) \<Rightarrow> or_else (trim (split_first CHR '','' s)) ''unknown''
               | None \<Rightarrow> ''unknown'')
         else (case xri of
                 Some (Single s) \<Rightarrow> if s \<noteq> [] then s else or_else (req_ip req) ''unknown''
               | _ \<Rightarrow> or_else (req_ip req) ''unknown''))"

text \<open>A header value used as a string: an array is joined with commas.\<close>

fun join_comma :: "string list \<Rightarrow> string" where
  "join_comma [] = []"
| "join_comma [x] = x"
| "join_comma (x # y # ys) = x @ '','' @ join_comma (y # ys)"

definition header_or :: "header_value option \<Rightarrow> string \<Rightarrow> string" where
  "header_or h d = (case h of
                      None \<Rightarrow> d
                    | Some (Single s) \<Rightarrow> if s = [] then d else s
                    | Some (Multi xs) \<Rightarrow> join_comma xs)"

text \<open>
  \<open>generateKey\<close> substitutes the five tokens in the order of the source's table:
  \<open>{ip}\<close>, \<open>{user}\<close>, \<open>{path}\<close>, \<open>{method}\<close>, \<open>{user-agent}\<close>.
\<close>

definition generateKey :: "FastifyRequest \<Rightarrow> string \<Rightarrow> string" where
  "generateKey req keyPattern =
     (let k1 = replace_all ''{ip}'' (getClientIp req) keyPattern;
          k2 = replace_all ''{user}''
                 (case req_user req of None \<Rightarrow> ''anonymous'' | Some sub \<Rightarrow> or_else sub ''anonymous'') k1;
          k3 = replace_all ''{path}'' (or_else (split_first CHR ''?'' (req_url req)) ''/'') k2;
          k4 = replace_all ''{method}'' (req_method req) k3
      in replace_all ''{user-agent}'' (header_or (map_of (req_headers req) ''user-agent'') ''unknown'') k4)"

definition skipped :: "RateLimitRule \<Rightarrow> FastifyRequest \<Rightarrow> bool" where
  "skipped rule req = (case rule_skipIf rule of None \<Rightarrow> False | Some p \<Rightarrow> p req)"

text \<open>The loop of \<open>checkRateLimit\<close> over the rules, with \<open>mostRestrictive\<close> as accumulator.\<close>

fun checkRules ::
  "windows \<Rightarrow> FastifyRequest \<Rightarrow> int \<Rightarrow> RateLimitResult \<Rightarrow> RateLimitRule list
     \<Rightarrow> RateLimitResult \<times> windows" where
  "checkRules ws req now mostRestrictive [] = (mostRestrictive, ws)"
| "checkRules ws req now mostRestrictive (rule # rules) =
     (if skipped rule req then checkRules ws req now mostRestrictive rules
      else (let (result, ws') = checkSingleRule ws (generateKey req (rule_key rule)) rule now
            in if \<not> r_allowed result then (result, ws')
               else if hits_less (r_remainingHits result) (r_remainingHits mostRestrictive)
               then checkRules ws' req now result rules
               else checkRules ws' req now mostRestrictive rules))"

definition checkRateLimit ::
  "windows \<Rightarrow> FastifyRequest \<Rightarrow> RateLimitRule list \<Rightarrow> int \<Rightarrow> RateLimitResult \<times> windows" where
  "checkRateLimit ws req rules now =
     checkRules ws req now
       \<lparr>r_allowed = True, r_totalHits = 0, r_remainingHits = Infinity, r_resetTime = now,
        r_retryAfter = None\<rparr> rules"

text \<open>
  A sequence of \<open>checkRateLimit\<close> calls, each with its request and its reading of the
  clock, threading the window table through; it returns the decisions in order.
\<close>

fun checkRateLimit_seq ::
  "windows \<Rightarrow> RateLimitRule list \<Rightarrow> (FastifyRequest \<times> int) list
     \<Rightarrow> RateLimitResult list \<times> windows" where
  "checkRateLimit_seq ws rules [] = ([], ws)"
| "checkRateLimit_seq ws rules ((req, now) # calls) =
     (let (res, ws') = checkRateLimit ws req rules now;
          (rs, ws'') = checkRateLimit_seq ws' rules calls
      in (res # rs, ws''))"

text \<open>
  Two concrete rules (2 per minute and client address, after 1000 per minute globally), a
  request, and a window table in which the client's window is full.
\<close>

definition demo_rule :: RateLimitRule where
  "demo_rule = \<lparr>rule_key = ''ip:{ip}'', rule_limit = 2, rule_window = 60000, rule_skipIf = None\<rparr>"

definition demo_global :: RateLimitRule where
  "demo_global = \<lparr>rule_key = ''global'', rule_limit = 1000, rule_window = 60000, rule_skipIf = None\<rparr>"

definition demo_req :: FastifyRequest where
  "demo_req = \<lparr>req_url = ''/api/users?page=2'', req_method = ''GET'', req_headers = [],
                req_query = [(''page'', ''2'')], req_body = None, req_ip = ''10.0.0.7'',
                req_user = None\<rparr>"

definition demo_windows :: windows where
  "demo_windows = [''ip:10.0.0.7'' \<mapsto> \<lparr>w_count = 2, w_resetTime = 61000, w_firstRequest = 1000\<rparr>]"

section \<open>Circuit breaker (circuit-breaker.service.ts)\<close>

text \<open>
  Field prefixes: \<open>cfg_\<close> for \<open>CircuitBreakerConfig\<close>, \<open>st_\<close> for \<open>CircuitBreakerStats\<close>,
  \<open>cb_\<close> for \<open>CircuitBreakerInstance\<close>. A \<open>Date | null\<close> is an \<^typ>\<open>int option\<close> holding
  \<open>getTime()\<close>. The configured fallback body is kept as its text; an absent or falsy one
  is \<open>None\<close> or the empty text.
\<close>

datatype CircuitBreakerState = CLOSED | OPEN | HALF_OPEN

record CircuitBreakerConfig =
  cfg_enabled :: bool
  cfg_threshold :: int
  cfg_timeout :: int
  cfg_monitorWindow :: int
  cfg_fallbackResponse :: "string option"

record CircuitBreakerStats =
  st_state :: CircuitBreakerState
  st_failureCount :: int
  st_successCount :: int
  st_lastFailureTime :: "int option"
  st_lastSuccessTime :: "int option"
  st_nextAttemptTime :: "int option"
  st_totalRequests :: int
  st_totalFailures :: int
  st_totalSuccesses :: int

record CircuitBreakerInstance =
  cb_id :: string
  cb_config :: CircuitBreakerConfig
  cb_stats :: CircuitBreakerStats
  cb_windowStart :: int
  cb_failureWindow :: "int list"

type_synonym circuitBreakers = "string \<rightharpoonup> CircuitBreakerInstance"

text \<open>
  The readings of \<open>Date.now()\<close> that one call of a service method makes, in program order:
  in \<open>createCircuitBreaker\<close> (when the instance is created on first use), at the method's
  own \<open>const now\<close>, and in \<open>transitionToOpen\<close>.
\<close>

record readings =
  at_create :: int
  at_now :: int
  at_open :: int

definition generateKey_cb :: "string \<Rightarrow> string \<Rightarrow> string" where
  "generateKey_cb routeId targetUrl = routeId @ '':'' @ targetUrl"

definition createCircuitBreaker :: "string \<Rightarrow> CircuitBreakerConfig \<Rightarrow> int \<Rightarrow> CircuitBreakerInstance" where
  "createCircuitBreaker ident config now =
     \<lparr>cb_id = ident, cb_config = config,
      cb_stats = \<lparr>st_state = CLOSED, st_failureCount = 0, st_successCount = 0,
                  st_lastFailureTime = None, st_lastSuccessTime = None,
                  st_nextAttemptTime = None, st_totalRequests = 0, st_totalFailures = 0,
                  st_totalSuccesses = 0\<rparr>,
      cb_windowStart = now, cb_failureWindow = []\<rparr>"

text \<open>\<open>getCircuitBreaker\<close> returns the instance and the table, which gains it on first use.\<close>

definition getCircuitBreaker ::
  "circuitBreakers \<Rightarrow> string \<Rightarrow> string \<Rightarrow> CircuitBreakerConfig \<Rightarrow> int
     \<Rightarrow> CircuitBreakerInstance \<times> circuitBreakers" where
  "getCircuitBreaker cbs routeId targetUrl config now =
     (let k = generateKey_cb routeId targetUrl
      in case cbs k of
           None \<Rightarrow> (let cb = createCircuitBreaker k config now in (cb, cbs(k \<mapsto> cb)))
         | Some cb \<Rightarrow> (cb, cbs))"

definition transitionToClosed :: "CircuitBreakerInstance \<Rightarrow> CircuitBreakerInstance" where
  "transitionToClosed cb =
     cb\<lparr>cb_stats := (cb_stats cb)\<lparr>st_state := CLOSED, st_failureCount := 0,
                                    st_nextAttemptTime := None\<rparr>,
        cb_failureWindow := []\<rparr>"

definition transitionToOpen ::
  "CircuitBreakerInstance \<Rightarrow> CircuitBreakerConfig \<Rightarrow> int \<Rightarrow> CircuitBreakerInstance" where
  "transitionToOpen cb config now =
     cb\<lparr>cb_stats := (cb_stats cb)\<lparr>st_state := OPEN,
                                    st_nextAttemptTime := Some (now + cfg_timeout config)\<rparr>\<rparr>"

definition transitionToHalfOpen :: "CircuitBreakerInstance \<Rightarrow> CircuitBreakerInstance" where
  "transitionToHalfOpen cb =
     cb\<lparr>cb_stats := (cb_stats cb)\<lparr>st_state := HALF_OPEN, st_nextAttemptTime := None\<rparr>\<rparr>"

definition cleanupWindow :: "CircuitBreakerInstance \<Rightarrow> int \<Rightarrow> int \<Rightarrow> CircuitBreakerInstance" where
  "cleanupWindow cb now windowSize =
     (let cutoffTime = now - windowSize
      in cb\<lparr>cb_failureWindow := filter (\<lambda>time. time > cutoffTime) (cb_failureWindow cb)\<rparr>)"

definition canExecute ::
  "circuitBreakers \<Rightarrow> string \<Rightarrow> string \<Rightarrow> CircuitBreakerConfig \<Rightarrow> readings
     \<Rightarrow> bool \<times> circuitBreakers" where
  "canExecute cbs routeId targetUrl config clk =
     (if \<not> cfg_enabled config then (True, cbs)
      else (let (cb, cbs1) = getCircuitBreaker cbs routeId targetUrl config (at_create clk);
                now = at_now clk
            in case st_state (cb_stats cb) of
                 CLOSED \<Rightarrow> (True, cbs1)
               | OPEN \<Rightarrow>
                   (case st_nextAttemptTime (cb_stats cb) of
                      Some next \<Rightarrow>
                        if now \<ge> next
                        then (True, cbs1(generateKey_cb routeId targetUrl \<mapsto> transitionToHalfOpen cb))
                        else (False, cbs1)
                    | None \<Rightarrow> (False, cbs1))
               | HALF_OPEN \<Rightarrow> (True, cbs1)))"

definition recordSuccess ::
  "circuitBreakers \<Rightarrow> string \<Rightarrow> string \<Rightarrow> CircuitBreakerConfig \<Rightarrow> readings \<Rightarrow> circuitBreakers" where
  "recordSuccess cbs routeId targetUrl config clk =
     (if \<not> cfg_enabled config then cbs
      else (let (cb, cbs1) = getCircuitBreaker cbs routeId targetUrl config (at_create clk);
                now = at_now clk;
                cb1 = cb\<lparr>cb_stats := (cb_stats cb)\<lparr>
                         st_successCount := st_successCount (cb_stats cb) + 1,
                         st_totalSuccesses := st_totalSuccesses (cb_stats cb) + 1,
                         st_totalRequests := st_totalRequests (cb_stats cb) + 1,
                         st_lastSuccessTime := Some now\<rparr>\<rparr>;
                cb2 = cleanupWindow cb1 now (cfg_monitorWindow config);
                cb3 = (case st_state (cb_stats cb2) of
                         HALF_OPEN \<Rightarrow> transitionToClosed cb2
                       | OPEN \<Rightarrow> transitionToClosed cb2
                       | CLOSED \<Rightarrow> cb2)
            in cbs1(generateKey_cb routeId targetUrl \<mapsto> cb3)))"

definition recordFailure ::
  "circuitBreakers \<Rightarrow> string \<Rightarrow> string \<Rightarrow> CircuitBreakerConfig \<Rightarrow> readings \<Rightarrow> circuitBreakers" where
  "recordFailure cbs routeId targetUrl config clk =
     (if \<not> cfg_enabled config then cbs
      else (let (cb, cbs1) = getCircuitBreaker cbs routeId targetUrl config (at_create clk);
                now = at_now clk;
                cb1 = cb\<lparr>cb_stats := (cb_stats cb)\<lparr>
                         st_failureCount := st_failureCount (cb_stats cb) + 1,
                         st_totalFailures := st_totalFailures (cb_stats cb) + 1,
                         st_totalRequests := st_totalRequests (cb_stats cb) + 1,
                         st_lastFailureTime := Some now\<rparr>,
                        cb_failureWindow := cb_failureWindow cb @ [now]\<rparr>;
                cb2 = cleanupWindow cb1 now (cfg_monitorWindow config);
                cb3 = (if int (length (cb_failureWindow cb2)) \<ge> cfg_threshold config
                       then transitionToOpen cb2 config (at_open clk) else cb2)
            in cbs1(generateKey_cb routeId targetUrl \<mapsto> cb3)))"

text \<open>The body that \<open>getFallbackResponse\<close> returns: the configured one, or the default.\<close>

datatype fallback = Configured string | Default_fallback string int string int

definition getFallbackResponse :: "CircuitBreakerConfig \<Rightarrow> fallback" where
  "getFallbackResponse config =
     (case cfg_fallbackResponse config of
        Some b \<Rightarrow> if b \<noteq> [] then Configured b
                  else Default_fallback ''Service temporarily unavailable'' 503
                         ''Circuit breaker is OPEN'' (ceil_div1000 (cfg_timeout config))
      | None \<Rightarrow> Default_fallback ''Service temporarily unavailable'' 503
                  ''Circuit breaker is OPEN'' (ceil_div1000 (cfg_timeout config)))"

text \<open>Sequences of calls on one breaker, each with its clock readings.\<close>

fun recordFailure_seq ::
  "circuitBreakers \<Rightarrow> string \<Rightarrow> string \<Rightarrow> CircuitBreakerConfig \<Rightarrow> readings list \<Rightarrow> circuitBreakers" where
  "recordFailure_seq cbs routeId targetUrl config [] = cbs"
| "recordFailure_seq cbs routeId targetUrl config (clk # clks) =
     recordFailure_seq (recordFailure cbs routeId targetUrl config clk) routeId targetUrl config clks"

fun canExecute_seq ::
  "circuitBreakers \<Rightarrow> string \<Rightarrow> string \<Rightarrow> CircuitBreakerConfig \<Rightarrow> readings list
     \<Rightarrow> bool list \<times> circuitBreakers" where
  "canExecute_seq cbs routeId targetUrl config [] = ([], cbs)"
| "canExecute_seq cbs routeId targetUrl config (clk # clks) =
     (let (b, cbs1) = canExecute cbs routeId targetUrl config clk;
          (bs, cbs2) = canExecute_seq cbs1 routeId targetUrl config clks
      in (b # bs, cbs2))"

text \<open>The configuration of the service's own test suite, and a call whose clock readings all give the same time.\<close>

definition mockConfig :: CircuitBreakerConfig where
  "mockConfig = \<lparr>cfg_enabled = True, cfg_threshold = 3, cfg_timeout = 5000,
                  cfg_monitorWindow = 10000, cfg_fallbackResponse = None\<rparr>"

definition tick :: "int \<Rightarrow> readings" where
  "tick t = \<lparr>at_create = t, at_now = t, at_open = t\<rparr>"

text \<open>
  What \<open>getStats\<close> would show for a key: the state and failure window of the stored
  instance, or those of the instance that the first use creates.
\<close>

definition state_of :: "circuitBreakers \<Rightarrow> string \<Rightarrow> CircuitBreakerState" where
  "state_of cbs k = (case cbs k of None \<Rightarrow> CLOSED | Some cb \<Rightarrow> st_state (cb_stats cb))"

definition failureWindow_of :: "circuitBreakers \<Rightarrow> string \<Rightarrow> int list" where
  "failureWindow_of cbs k = (case cbs k of None \<Rightarrow> [] | Some cb \<Rightarrow> cb_failureWindow cb)"

definition nextAttemptTime_of :: "circuitBreakers \<Rightarrow> string \<Rightarrow> int option" where
  "nextAttemptTime_of cbs k = (case cbs k of None \<Rightarrow> None | Some cb \<Rightarrow> st_nextAttemptTime (cb_stats cb))"

text \<open>The breaker of the test suite after three failures one second apart.\<close>

definition demo_opened :: circuitBreakers where
  "demo_opened = recordFailure_seq Map.empty ''test-route'' ''http://test-service:3000'' mockConfig
                   [tick 1000, tick 2000, tick 3000]"

text \<open>The same breaker once the probe at 13 s has moved it to \<open>HALF_OPEN\<close>.\<close>

definition demo_half_open :: circuitBreakers where
  "demo_half_open =
     snd (canExecute demo_opened ''test-route'' ''http://test-service:3000'' mockConfig (tick 13000))"

section \<open>Routes (route.types.ts, route-config.service.ts)\<close>

text \<open>
  Field prefixes: \<open>tgt_\<close> for \<open>RouteTarget\<close>, \<open>hc_\<close> for \<open>HealthCheckConfig\<close>, \<open>lbc_\<close> for
  \<open>LoadBalancerConfig\<close>, \<open>route_\<close> for \<open>RouteConfig\<close>. An \<open>HttpMethod\<close> is its string (the
  gateway casts the upper-cased request method to it), a \<open>Date\<close> its time in milliseconds.
  The optional fields that no modelled function reads (\<open>stickySession\<close>, \<open>rateLimit\<close>,
  \<open>headers\<close>) are left out.
\<close>

record RouteTarget =
  tgt_url :: string
  tgt_weight :: int
  tgt_isHealthy :: bool
  tgt_lastHealthCheck :: int
  tgt_responseTime :: int
  tgt_errorCount :: int

datatype LoadBalancerAlgorithm =
  ROUND_ROBIN | WEIGHTED_ROUND_ROBIN | LEAST_CONNECTIONS | LEAST_RESPONSE_TIME | HEALTH_BASED | RANDOM

record HealthCheckConfig =
  hc_enabled :: bool
  hc_path :: string
  hc_interval :: int
  hc_timeout :: int
  hc_healthyThreshold :: int
  hc_unhealthyThreshold :: int

record LoadBalancerConfig =
  lbc_algorithm :: LoadBalancerAlgorithm
  lbc_healthCheck :: HealthCheckConfig

record RouteConfig =
  route_id :: string
  route_path :: string
  route_method :: string
  route_targets :: "RouteTarget list"
  route_loadBalancer :: LoadBalancerConfig
  route_circuitBreaker :: CircuitBreakerConfig
  route_timeout :: int
  route_retries :: int
  route_isActive :: bool
  route_createdAt :: int
  route_updatedAt :: int

text \<open>The \<open>Map\<close> of routes, in insertion order (the order of \<open>this.routes.values()\<close>).\<close>

type_synonym routes = "(string \<times> RouteConfig) list"

definition generateRouteKey :: "string \<Rightarrow> string \<Rightarrow> string" where
  "generateRouteKey path method = method @ '':'' @ path"

definition getRoute :: "routes \<Rightarrow> string \<Rightarrow> string \<Rightarrow> RouteConfig option" where
  "getRoute rs path method = map_of rs (generateRouteKey path method)"

text \<open>
  \<open>setRoute\<close> takes the configuration as a route whose \<open>id\<close> and timestamps are still to be
  filled in, with the fresh UUID and the clock reading as arguments.
\<close>

definition setRoute :: "routes \<Rightarrow> RouteConfig \<Rightarrow> string \<Rightarrow> int \<Rightarrow> RouteConfig \<times> routes" where
  "setRoute rs config routeId now =
     (let route = config\<lparr>route_id := routeId, route_createdAt := now, route_updatedAt := now\<rparr>
      in (route, map_set (generateRouteKey (route_path config) (route_method config)) route rs))"

definition getHealthyTargets :: "routes \<Rightarrow> string \<Rightarrow> string \<Rightarrow> RouteTarget list" where
  "getHealthyTargets rs path method =
     (case getRoute rs path method of
        None \<Rightarrow> []
      | Some route \<Rightarrow> filter tgt_isHealthy (route_targets route))"

text \<open>\<open>targets.find(t => t.url === targetUrl)\<close> followed by the assignment to the found target.\<close>

fun update_first :: "('a \<Rightarrow> bool) \<Rightarrow> ('a \<Rightarrow> 'a) \<Rightarrow> 'a list \<Rightarrow> 'a list" where
  "update_first p f [] = []"
| "update_first p f (x # xs) = (if p x then f x # xs else x # update_first p f xs)"

definition updateTargetResponseTime :: "routes \<Rightarrow> string \<Rightarrow> string \<Rightarrow> string \<Rightarrow> int \<Rightarrow> routes" where
  "updateTargetResponseTime rs path method targetUrl responseTime =
     (case getRoute rs path method of
        None \<Rightarrow> rs
      | Some route \<Rightarrow>
          map_set (generateRouteKey path method)
            (route\<lparr>route_targets :=
                update_first (\<lambda>t. tgt_url t = targetUrl) (\<lambda>t. t\<lparr>tgt_responseTime := responseTime\<rparr>)
                  (route_targets route)\<rparr>) rs)"

subsection \<open>Path patterns\<close>

text \<open>
  \<open>pathMatches\<close> rewrites the route path into a regular expression: every \<open>:name\<close> (a colon
  and the non-slash characters after it, at least one) becomes \<open>([^/]+)\<close>, every \<open>*\<close> becomes
  \<open>.*\<close>, and the result is tested between \<open>^\<close> and \<open>$\<close>. The expression is kept as a list
  of tokens. A dot of the route path is the regular expression's dot; the other characters
  stand for themselves (route paths with further operators of the regular-expression syntax
  are outside this model).
\<close>

datatype token = Lit char | AnyChar | Param | Star

function tokenize :: "string \<Rightarrow> token list" where
  "tokenize [] = []"
| "tokenize (c # cs) =
     (if c = CHR '':'' \<and> cs \<noteq> [] \<and> hd cs \<noteq> CHR ''/''
      then Param # tokenize (dropWhile (\<lambda>x. x \<noteq> CHR ''/'') cs)
      else (if c = CHR ''*'' then Star else if c = CHR ''.'' then AnyChar else Lit c) # tokenize cs)"
  by pat_completeness auto
termination
  by (relation "measure length") (auto simp add: le_imp_less_Suc length_dropWhile_le)

definition line_terminator :: "char \<Rightarrow> bool" where
  "line_terminator c = (c = CHR 0x0A \<or> c = CHR 0x0D)"

fun regex_test :: "token list \<Rightarrow> string \<Rightarrow> bool" where
  "regex_test [] s = (s = [])"
| "regex_test (Lit c # ts) [] = False"
| "regex_test (Lit c # ts) (x # xs) = (x = c \<and> regex_test ts xs)"
| "regex_test (AnyChar # ts) [] = False"
| "regex_test (AnyChar # ts) (x # xs) = (\<not> line_terminator x \<and> regex_test ts xs)"
| "regex_test (Param # ts) [] = False"
| "regex_test (Param # ts) (x # xs) =
     (x \<noteq> CHR ''/'' \<and> (regex_test ts xs \<or> regex_test (Param # ts) xs))"
| "regex_test (Star # ts) [] = regex_test ts []"
| "regex_test (Star # ts) (x # xs) =
     (regex_test ts (x # xs) \<or> (\<not> line_terminator x \<and> regex_test (Star # ts) xs))"

definition pathMatches :: "string \<Rightarrow> string \<Rightarrow> bool" where
  "pathMatches routePath requestPath = regex_test (tokenize routePath) requestPath"

definition findMatchingRoute :: "routes \<Rightarrow> string \<Rightarrow> string \<Rightarrow> RouteConfig option" where
  "findMatchingRoute rs requestPath method =
     (case getRoute rs requestPath method of
        Some exactMatch \<Rightarrow> Some exactMatch
      | None \<Rightarrow>
          find (\<lambda>route. route_method route = method \<and> route_isActive route \<and>
                        pathMatches (route_path route) requestPath)
               (map snd rs))"

text \<open>The two routes that \<open>initializeDefaultRoutes\<close> installs, given their UUIDs and the clock.\<close>

definition defaultTarget :: "string \<Rightarrow> int \<Rightarrow> int \<Rightarrow> RouteTarget" where
  "defaultTarget url weight now =
     \<lparr>tgt_url = url, tgt_weight = weight, tgt_isHealthy = True, tgt_lastHealthCheck = now,
      tgt_responseTime = 0, tgt_errorCount = 0\<rparr>"

definition defaultRoute :: "string \<Rightarrow> RouteTarget list \<Rightarrow> LoadBalancerAlgorithm \<Rightarrow> RouteConfig" where
  "defaultRoute path targets algorithm =
     \<lparr>route_id = [], route_path = path, route_method = ''GET'', route_targets = targets,
      route_loadBalancer =
        \<lparr>lbc_algorithm = algorithm,
         lbc_healthCheck = \<lparr>hc_enabled = True, hc_path = ''/health'', hc_interval = 30000,
                             hc_timeout = 5000, hc_healthyThreshold = 2,
                             hc_unhealthyThreshold = 3\<rparr>\<rparr>,
      route_circuitBreaker = \<lparr>cfg_enabled = True, cfg_threshold = 5, cfg_timeout = 30000,
                                cfg_monitorWindow = 60000, cfg_fallbackResponse = None\<rparr>,
      route_timeout = 30000, route_retries = 3, route_isActive = True,
      route_createdAt = 0, route_updatedAt = 0\<rparr>"

definition initializeDefaultRoutes :: "string \<Rightarrow> string \<Rightarrow> int \<Rightarrow> routes" where
  "initializeDefaultRoutes id1 id2 now =
     (let (r1, rs1) = setRoute []
            (defaultRoute ''/api/users''
               [defaultTarget ''http://user-service:3001/users'' 1 now,
                defaultTarget ''http://user-service-backup:3001/users'' 1 now] ROUND_ROBIN) id1 now;
          (r2, rs2) = setRoute rs1
            (defaultRoute ''/api/orders''
               [defaultTarget ''http://order-service:3002/orders'' 2 now,
                defaultTarget ''http://order-service-v2:3002/orders'' 1 now] WEIGHTED_ROUND_ROBIN) id2 now
      in rs2)"

section \<open>Load balancer (load-balancer.service.ts)\<close>

record LoadBalancerService =
  lb_roundRobinCounters :: "string \<rightharpoonup> int"
  lb_connectionCounts :: "string \<rightharpoonup> int"

definition counter_of :: "(string \<rightharpoonup> int) \<Rightarrow> string \<Rightarrow> int" where
  "counter_of m k = (case m k of None \<Rightarrow> 0 | Some n \<Rightarrow> n)"

definition incrementConnectionCount :: "LoadBalancerService \<Rightarrow> string \<Rightarrow> LoadBalancerService" where
  "incrementConnectionCount lb targetUrl =
     lb\<lparr>lb_connectionCounts :=
          (lb_connectionCounts lb)(targetUrl \<mapsto> counter_of (lb_connectionCounts lb) targetUrl + 1)\<rparr>"

definition decrementConnectionCount :: "LoadBalancerService \<Rightarrow> string \<Rightarrow> LoadBalancerService" where
  "decrementConnectionCount lb targetUrl =
     lb\<lparr>lb_connectionCounts :=
          (lb_connectionCounts lb)(targetUrl \<mapsto> max 0 (counter_of (lb_connectionCounts lb) targetUrl - 1))\<rparr>"

text \<open>The selections are called with a non-empty list; \<open>targets[i]!\<close> is \<^term>\<open>targets ! i\<close>.\<close>

definition roundRobinSelection ::
  "LoadBalancerService \<Rightarrow> RouteTarget list \<Rightarrow> string \<Rightarrow> RouteTarget \<times> LoadBalancerService" where
  "roundRobinSelection lb targets routeKey =
     (let counter = counter_of (lb_roundRobinCounters lb) routeKey;
          selectedIndex = counter mod int (length targets)
      in (targets ! nat selectedIndex,
          lb\<lparr>lb_roundRobinCounters := (lb_roundRobinCounters lb)(routeKey \<mapsto> counter + 1)\<rparr>))"

fun weightedWalk :: "RouteTarget list \<Rightarrow> int \<Rightarrow> RouteTarget option" where
  "weightedWalk [] weightedIndex = None"
| "weightedWalk (target # rest) weightedIndex =
     (if weightedIndex - tgt_weight target \<le> 0 then Some target
      else weightedWalk rest (weightedIndex - tgt_weight target))"

text \<open>
  With a total weight of zero the source's \<open>counter % totalWeight\<close> is \<open>NaN\<close>, no comparison
  succeeds and the first target is returned.
\<close>

definition weightedRoundRobinSelection ::
  "LoadBalancerService \<Rightarrow> RouteTarget list \<Rightarrow> string \<Rightarrow> RouteTarget \<times> LoadBalancerService" where
  "weightedRoundRobinSelection lb targets routeKey =
     (let totalWeight = sum_list (map tgt_weight targets);
          counter = counter_of (lb_roundRobinCounters lb) routeKey;
          lb1 = lb\<lparr>lb_roundRobinCounters := (lb_roundRobinCounters lb)(routeKey \<mapsto> counter + 1)\<rparr>
      in if totalWeight = 0 then (hd targets, lb1)
         else (case weightedWalk targets ((counter mod \<bar>totalWeight\<bar>) + 1) of
                 Some target \<Rightarrow> (target, lb1)
               | None \<Rightarrow> (hd targets, lb1)))"

definition leastConnectionsSelection :: "LoadBalancerService \<Rightarrow> RouteTarget list \<Rightarrow> RouteTarget" where
  "leastConnectionsSelection lb targets =
     fst (foldl (\<lambda>(selectedTarget, minConnections) target.
                   let connections = counter_of (lb_connectionCounts lb) (tgt_url target)
                   in if connections < minConnections then (target, connections)
                      else (selectedTarget, minConnections))
            (hd targets, counter_of (lb_connectionCounts lb) (tgt_url (hd targets)))
            (tl targets))"

definition leastResponseTimeSelection :: "RouteTarget list \<Rightarrow> RouteTarget" where
  "leastResponseTimeSelection targets =
     foldl (\<lambda>best current. if tgt_responseTime current < tgt_responseTime best then current else best)
       (hd targets) (tl targets)"

definition healthBasedSelection :: "RouteTarget list \<Rightarrow> RouteTarget" where
  "healthBasedSelection targets = hd (sort_key tgt_errorCount targets)"

text \<open>
  \<open>selectTarget\<close>; \<open>randomIndex\<close> stands for \<open>Math.floor(Math.random() * targets.length)\<close>, an
  index below the length that the environment picks.
\<close>

definition selectTarget ::
  "LoadBalancerService \<Rightarrow> RouteTarget list \<Rightarrow> LoadBalancerAlgorithm \<Rightarrow> string \<Rightarrow> nat
     \<Rightarrow> RouteTarget option \<times> LoadBalancerService" where
  "selectTarget lb targets algorithm routeKey randomIndex =
     (let healthyTargets = filter tgt_isHealthy targets
      in if length healthyTargets = 0 then (None, lb)
         else (case algorithm of
                 ROUND_ROBIN \<Rightarrow>
                   (let (t, lb1) = roundRobinSelection lb healthyTargets routeKey in (Some t, lb1))
               | WEIGHTED_ROUND_ROBIN \<Rightarrow>
                   (let (t, lb1) = weightedRoundRobinSelection lb healthyTargets routeKey
                    in (Some t, lb1))
               | LEAST_CONNECTIONS \<Rightarrow> (Some (leastConnectionsSelection lb healthyTargets), lb)
               | LEAST_RESPONSE_TIME \<Rightarrow> (Some (leastResponseTimeSelection healthyTargets), lb)
               | HEALTH_BASED \<Rightarrow> (Some (healthBasedSelection healthyTargets), lb)
               | RANDOM \<Rightarrow> (Some (healthyTargets ! min randomIndex (length healthyTargets - 1)), lb)))"

section \<open>Forwarder (proxy.service.ts)\<close>

text \<open>
  The exceptions that cross the forwarder and the gateway handler, each with its message.
  \<open>ServiceUnavailableException\<close> carries the fallback body.
\<close>

datatype exception =
    NotFoundException string
  | BadGatewayException string
  | RequestTimeoutException string
  | ServiceUnavailableException fallback
  | TypeError string
  | OtherError string

fun message :: "exception \<Rightarrow> string" where
  "message (NotFoundException m) = m"
| "message (BadGatewayException m) = m"
| "message (RequestTimeoutException m) = m"
| "message (ServiceUnavailableException (Default_fallback m code e r)) = m"
| "message (ServiceUnavailableException (Configured b)) = ''Service Unavailable Exception''"
| "message (TypeError m) = m"
| "message (OtherError m) = m"

text \<open>Decimal text of a number, as a template literal prints it.\<close>

definition dec_digit :: "nat \<Rightarrow> char" where
  "dec_digit d = ''0123456789'' ! d"

function show_nat :: "nat \<Rightarrow> string" where
  "show_nat n = (if n < 10 then [dec_digit n] else show_nat (n div 10) @ [dec_digit (n mod 10)])"
  by pat_completeness auto
termination
  by (relation "measure (\<lambda>n. n)") auto

definition show_int :: "int \<Rightarrow> string" where
  "show_int i = (if i < 0 then ''-'' @ show_nat (nat (- i)) else show_nat (nat i))"

text \<open>Field prefixes: \<open>preq_\<close> for \<open>ProxyRequest\<close>, \<open>presp_\<close> for \<open>ProxyResponse\<close>.\<close>

record ProxyRequest =
  preq_method :: string
  preq_path :: string
  preq_headers :: "(string \<times> string) list"
  preq_body :: "string option"
  preq_query :: "(string \<times> string) list"
  preq_userId :: "string option"
  preq_traceId :: string

record ProxyResponse =
  presp_statusCode :: int
  presp_headers :: "(string \<times> string) list"
  presp_body :: string
  presp_responseTime :: int
  presp_targetUrl :: string
  presp_traceId :: string

text \<open>
  What one call of \<open>fetch\<close> does: it answers with a status, headers, a body and the time it
  took, or it throws the \<open>DOMException\<close> named \<open>TimeoutError\<close>, a \<open>TypeError\<close>, or
  something else. The upstream side of a forwarding is the outcome of each attempt (counted
  from 1), the clock readings of the breaker call that follows attempt \<open>n\<close> (those of the
  gate before the loop at 0), and the URL that \<open>new URL(cleanPath, baseUrl)\<close> with the query
  parameters resolves to, which \<open>buildTargetUrl\<close> returns.
\<close>

datatype fetch_outcome =
    Responds int "(string \<times> string) list" string int
  | Throws_TimeoutError
  | Throws_TypeError string
  | Throws_other string

record upstream =
  up_fetch :: "nat \<Rightarrow> fetch_outcome"
  up_clock :: "nat \<Rightarrow> readings"
  up_buildTargetUrl :: "string \<Rightarrow> string \<Rightarrow> (string \<times> string) list \<Rightarrow> string"

text \<open>
  \<open>makeRequest\<close> for attempt \<open>n\<close>. The prepared headers and the body only go into \<open>fetch\<close>,
  whose outcome the environment gives.
\<close>

definition makeRequest ::
  "upstream \<Rightarrow> ProxyRequest \<Rightarrow> RouteTarget \<Rightarrow> int \<Rightarrow> nat \<Rightarrow> exception + ProxyResponse" where
  "makeRequest env request target timeout n =
     (let targetUrl = up_buildTargetUrl env (tgt_url target) (preq_path request) (preq_query request)
      in case up_fetch env n of
           Responds status headers body responseTime \<Rightarrow>
             if \<not> (200 \<le> status \<and> status \<le> 299) \<and> status \<ge> 500
             then Inl (BadGatewayException (''Target service error: '' @ show_int status))
             else Inr \<lparr>presp_statusCode = status, presp_headers = headers, presp_body = body,
                       presp_responseTime = responseTime, presp_targetUrl = targetUrl,
                       presp_traceId = preq_traceId request\<rparr>
         | Throws_TimeoutError \<Rightarrow>
             Inl (RequestTimeoutException
                    (''Request timeout after '' @ show_int timeout @ ''ms to '' @ targetUrl))
         | Throws_TypeError m \<Rightarrow>
             if includes_str m ''fetch''
             then Inl (BadGatewayException (''Failed to connect to target service: '' @ targetUrl))
             else Inl (TypeError m)
         | Throws_other m \<Rightarrow> Inl (OtherError m))"

fun isCircuitBreakerEligibleError :: "exception \<Rightarrow> bool" where
  "isCircuitBreakerEligibleError (BadGatewayException m) = True"
| "isCircuitBreakerEligibleError (RequestTimeoutException m) = True"
| "isCircuitBreakerEligibleError (TypeError m) = includes_str m ''fetch''"
| "isCircuitBreakerEligibleError e = False"

definition shouldRetry :: "exception \<Rightarrow> int \<Rightarrow> int \<Rightarrow> bool" where
  "shouldRetry error attempt maxRetries =
     (if attempt \<ge> maxRetries then False
      else if includes_str (message error) ''4'' then False
      else isCircuitBreakerEligibleError error)"

text \<open>
  \<open>circuitBreakerConfig && routeId\<close>: both arguments are given and the route id is not the
  empty string.
\<close>

definition breaker_args ::
  "CircuitBreakerConfig option \<Rightarrow> string option \<Rightarrow> (CircuitBreakerConfig \<times> string) option" where
  "breaker_args circuitBreakerConfig routeId =
     (case (circuitBreakerConfig, routeId) of
        (Some config, Some rid) \<Rightarrow> if rid \<noteq> [] then Some (config, rid) else None
      | _ \<Rightarrow> None)"

text \<open>
  The retry loop of \<open>forwardRequest\<close> from attempt \<open>attempt\<close> on, with \<open>lastError\<close> and
  \<open>isCircuitBreakerError\<close> as the loop carries them. The result is what is returned or thrown,
  the breaker table, and the number of calls of \<open>fetch\<close> made so far. The sleep between two
  attempts only lets time pass.
\<close>

function forwardLoop ::
  "upstream \<Rightarrow> circuitBreakers \<Rightarrow> ProxyRequest \<Rightarrow> RouteTarget \<Rightarrow> int \<Rightarrow> int
     \<Rightarrow> (CircuitBreakerConfig \<times> string) option \<Rightarrow> int \<Rightarrow> exception option \<Rightarrow> bool
     \<Rightarrow> (exception + ProxyResponse) \<times> circuitBreakers \<times> nat" where
  "forwardLoop env cbs request target timeout retries gate attempt lastError isCircuitBreakerError =
     (if attempt \<le> retries
      then (case makeRequest env request target timeout (nat attempt) of
              Inr response \<Rightarrow>
                (Inr response,
                 (case gate of
                    Some (config, rid) \<Rightarrow>
                      recordSuccess cbs rid (tgt_url target) config (up_clock env (nat attempt))
                  | None \<Rightarrow> cbs),
                 nat attempt)
            | Inl error \<Rightarrow>
                (let isCb = isCircuitBreakerEligibleError error;
                     cbs1 = (case gate of
                               Some (config, rid) \<Rightarrow>
                                 if isCb
                                 then recordFailure cbs rid (tgt_url target) config
                                        (up_clock env (nat attempt))
                                 else cbs
                             | None \<Rightarrow> cbs)
                 in if \<not> shouldRetry error attempt retries then (Inl error, cbs1, nat attempt)
                    else forwardLoop env cbs1 request target timeout retries gate (attempt + 1)
                           (Some error) isCb))
      else ((case lastError of
               Some error \<Rightarrow> Inl error
             | None \<Rightarrow> Inl (BadGatewayException ''All retry attempts failed'')),
            (case gate of
               Some (config, rid) \<Rightarrow>
                 if isCircuitBreakerError
                 then recordFailure cbs rid (tgt_url target) config (up_clock env (nat attempt))
                 else cbs
             | None \<Rightarrow> cbs),
            nat (attempt - 1)))"
  by pat_completeness auto
termination
  by (relation "measure (\<lambda>(env, cbs, request, target, timeout, retries, gate, attempt, rest).
                   nat (retries + 1 - attempt))") auto

definition forwardRequest ::
  "upstream \<Rightarrow> circuitBreakers \<Rightarrow> ProxyRequest \<Rightarrow> RouteTarget \<Rightarrow> int \<Rightarrow> int
     \<Rightarrow> CircuitBreakerConfig option \<Rightarrow> string option
     \<Rightarrow> (exception + ProxyResponse) \<times> circuitBreakers \<times> nat" where
  "forwardRequest env cbs request target timeout retries circuitBreakerConfig routeId =
     (let gate = breaker_args circuitBreakerConfig routeId
      in case gate of
           Some (config, rid) \<Rightarrow>
             (let (canExec, cbs1) = canExecute cbs rid (tgt_url target) config (up_clock env 0)
              in if \<not> canExec
                 then (Inl (ServiceUnavailableException (getFallbackResponse config)), cbs1, 0)
                 else forwardLoop env cbs1 request target timeout retries gate 1 None False)
         | None \<Rightarrow> forwardLoop env cbs request target timeout retries gate 1 None False)"

section \<open>Cache (cache.service.ts)\<close>

text \<open>
  Field prefixes: \<open>e_\<close> for \<open>CacheEntry\<close>, \<open>cc_\<close> for \<open>CacheConfig\<close>, \<open>cs_\<close> for the mutable
  fields of \<open>CacheService\<close>. The \<open>Map\<close> of entries is a list of pairs in insertion order,
  as \<open>Array.from(this.cache.entries())\<close> lists it. A cached value is any JavaScript value;
  \<open>Obj\<close> carries the text that \<open>JSON.stringify\<close> gives for an object.
\<close>

datatype jsvalue = Null | Undefined | Str string | Num int | Bool bool | Obj string

record CacheEntry =
  e_key :: string
  e_value :: jsvalue
  e_expiresAt :: int
  e_createdAt :: int
  e_accessCount :: int
  e_lastAccessed :: int
  e_size :: int

record CacheConfig =
  cc_maxSize :: int
  cc_maxMemory :: int
  cc_defaultTTL :: int
  cc_cleanupInterval :: int

record CacheService =
  cs_cache :: "(string \<times> CacheEntry) list"
  cs_hits :: int
  cs_misses :: int
  cs_evictions :: int
  cs_config :: CacheConfig

definition estimateSize :: "jsvalue \<Rightarrow> int" where
  "estimateSize v = (case v of
       Null \<Rightarrow> 0
     | Undefined \<Rightarrow> 0
     | Str s \<Rightarrow> int (length s) * 2
     | Num n \<Rightarrow> 8
     | Bool b \<Rightarrow> 1
     | Obj json \<Rightarrow> int (length json) * 2)"

definition getCurrentMemoryUsage :: "CacheService \<Rightarrow> int" where
  "getCurrentMemoryUsage cs = foldl (\<lambda>totalSize p. totalSize + e_size (snd p)) 0 (cs_cache cs)"

definition shouldEvict :: "CacheService \<Rightarrow> int \<Rightarrow> bool" where
  "shouldEvict cs newEntrySize =
     (if int (length (cs_cache cs)) \<ge> cc_maxSize (cs_config cs) then True
      else getCurrentMemoryUsage cs + newEntrySize > cc_maxMemory (cs_config cs))"

text \<open>
  The loop of \<open>evictEntries\<close> over the snapshot sorted by \<open>lastAccessed\<close>; it carries the
  live map, \<open>spaceFreed\<close> and \<open>evicted\<close>.
\<close>

fun evictLoop ::
  "(string \<times> CacheEntry) list \<Rightarrow> int \<Rightarrow> int \<Rightarrow> (string \<times> CacheEntry) list \<Rightarrow> int \<Rightarrow> int
     \<Rightarrow> (string \<times> CacheEntry) list \<times> int \<times> int" where
  "evictLoop [] spaceNeeded maxSize m spaceFreed evicted = (m, spaceFreed, evicted)"
| "evictLoop ((k, entry) # entries) spaceNeeded maxSize m spaceFreed evicted =
     (if spaceFreed \<ge> spaceNeeded \<and> int (length m) < maxSize then (m, spaceFreed, evicted)
      else evictLoop entries spaceNeeded maxSize (map_delete k m)
             (spaceFreed + e_size entry) (evicted + 1))"

definition evictEntries :: "CacheService \<Rightarrow> int \<Rightarrow> CacheService" where
  "evictEntries cs spaceNeeded =
     (let entries = sort_key (\<lambda>p. e_lastAccessed (snd p)) (cs_cache cs);
          (m, spaceFreed, evicted) =
             evictLoop entries spaceNeeded (cc_maxSize (cs_config cs)) (cs_cache cs) 0 0
      in cs\<lparr>cs_cache := m, cs_evictions := cs_evictions cs + evicted\<rparr>)"

text \<open>\<open>set(key, value, ttl?)\<close> at clock reading \<open>now\<close>; a missing or zero \<open>ttl\<close> is the default.\<close>

definition set_cache ::
  "CacheService \<Rightarrow> string \<Rightarrow> jsvalue \<Rightarrow> int option \<Rightarrow> int \<Rightarrow> bool \<times> CacheService" where
  "set_cache cs k v ttl now =
     (let expiration = (case ttl of None \<Rightarrow> cc_defaultTTL (cs_config cs)
                        | Some t \<Rightarrow> if t = 0 then cc_defaultTTL (cs_config cs) else t);
          size = estimateSize v;
          cs1 = (if shouldEvict cs size then evictEntries cs size else cs);
          entry = \<lparr>e_key = k, e_value = v, e_expiresAt = now + expiration, e_createdAt = now,
                   e_accessCount = 0, e_lastAccessed = now, e_size = size\<rparr>
      in (True, cs1\<lparr>cs_cache := map_set k entry (cs_cache cs1)\<rparr>))"

text \<open>
  \<open>get(key)\<close>; \<open>now\<close> is the reading for the expiry test and \<open>accessed\<close> the later one
  stored in \<open>lastAccessed\<close>.
\<close>

definition get_cache ::
  "CacheService \<Rightarrow> string \<Rightarrow> int \<Rightarrow> int \<Rightarrow> jsvalue option \<times> CacheService" where
  "get_cache cs k now accessed =
     (case map_of (cs_cache cs) k of
        None \<Rightarrow> (None, cs\<lparr>cs_misses := cs_misses cs + 1\<rparr>)
      | Some entry \<Rightarrow>
          if now \<ge> e_expiresAt entry
          then (None, cs\<lparr>cs_cache := map_delete k (cs_cache cs), cs_misses := cs_misses cs + 1\<rparr>)
          else (Some (e_value entry),
                cs\<lparr>cs_cache := map_set k (entry\<lparr>e_accessCount := e_accessCount entry + 1,
                                                 e_lastAccessed := accessed\<rparr>) (cs_cache cs),
                   cs_hits := cs_hits cs + 1\<rparr>))"

text \<open>
  The sum that \<open>getCurrentMemoryUsage\<close> computes, for any map of entries; the two limits of
  the configuration, as a predicate on the service's state; and what holds of every map the
  service builds: a key occurs once, and no estimated size is negative.
\<close>

definition bytes :: "(string \<times> CacheEntry) list \<Rightarrow> int" where
  "bytes m = sum_list (map (\<lambda>p. e_size (snd p)) m)"

definition well_formed :: "CacheService \<Rightarrow> bool" where
  "well_formed cs =
     (distinct (map fst (cs_cache cs)) \<and> list_all (\<lambda>p. 0 \<le> e_size (snd p)) (cs_cache cs))"

definition within_limits :: "CacheService \<Rightarrow> bool" where
  "within_limits cs =
     (int (length (cs_cache cs)) \<le> cc_maxSize (cs_config cs) \<and>
      getCurrentMemoryUsage cs \<le> cc_maxMemory (cs_config cs))"

subsection \<open>HTTP helpers of the cache\<close>

text \<open>
  \<open>hashString\<close>: \<open>hash = ((hash << 5) - hash) + char; hash = hash & hash\<close> keeps a signed
  32-bit integer, so the running value is a \<^typ>\<open>32 word\<close>; the result is
  \<open>Math.abs(hash).toString(16)\<close>. \<open>charCodeAt\<close> is the code of the character, for the
  8-bit characters of \<^typ>\<open>string\<close>.
\<close>

definition hex_digit :: "nat \<Rightarrow> char" where
  "hex_digit d = ''0123456789abcdef'' ! d"

function to_hex :: "nat \<Rightarrow> string" where
  "to_hex n = (if n < 16 then [hex_digit n] else to_hex (n div 16) @ [hex_digit (n mod 16)])"
  by pat_completeness auto
termination
  by (relation "measure (\<lambda>n. n)") auto

definition hash_step :: "32 word \<Rightarrow> char \<Rightarrow> 32 word" where
  "hash_step hash c = (push_bit 5 hash - hash) + of_nat (of_char c)"

definition hash32 :: "string \<Rightarrow> 32 word" where
  "hash32 str = foldl hash_step 0 str"

definition hashString :: "string \<Rightarrow> string" where
  "hashString str = to_hex (nat \<bar>sint (hash32 str)\<bar>)"

text \<open>A header map of the cache helpers is a \<open>Record<string, string>\<close>; \<open>''''\<close> is falsy.\<close>

definition hdr :: "(string \<rightharpoonup> string) \<Rightarrow> string \<Rightarrow> string" where
  "hdr headers name = (case headers name of None \<Rightarrow> [] | Some v \<Rightarrow> v)"

definition generateHttpCacheKey :: "string \<Rightarrow> string \<Rightarrow> (string \<rightharpoonup> string) option \<Rightarrow> string" where
  "generateHttpCacheKey method url headers =
     (let baseKey = ''http:'' @ method @ '':'' @ url
      in case headers of
           None \<Rightarrow> baseKey
         | Some h \<Rightarrow>
             if hdr h ''authorization'' \<noteq> [] \<or> hdr h ''x-user-id'' \<noteq> []
             then baseKey @ '':user:''
                    @ hashString (or_else (hdr h ''authorization'') (or_else (hdr h ''x-user-id'') []))
             else baseKey)"

definition shouldCacheResponse :: "int \<Rightarrow> (string \<rightharpoonup> string) \<Rightarrow> bool" where
  "shouldCacheResponse statusCode headers =
     (if statusCode \<ge> 400 then False
      else (let cacheControl = hdr headers ''cache-control''
            in if includes_str cacheControl ''no-cache'' \<or> includes_str cacheControl ''no-store''
               then False
               else if hdr headers ''set-cookie'' \<noteq> [] then False
               else True))"

section \<open>Gateway handler (gateway.controller.ts)\<close>

text \<open>The services that the handler uses, with their mutable state.\<close>

record Gateway =
  gw_routes :: routes
  gw_loadBalancer :: LoadBalancerService
  gw_circuitBreakers :: circuitBreakers

datatype reply_body =
    Upstream_body string
  | Error_body string int string
  | Not_found_body

record GatewayReply =
  reply_status :: int
  reply_headers :: "(string \<times> string) list"
  reply_body :: reply_body

definition toUpperCase :: "string \<Rightarrow> string" where
  "toUpperCase s = map (\<lambda>c. let n = (of_char c :: nat)
                            in if 97 \<le> n \<and> n \<le> 122 then char_of (n - 32) else c) s"

definition toLowerCase :: "string \<Rightarrow> string" where
  "toLowerCase s = map (\<lambda>c. let n = (of_char c :: nat)
                            in if 65 \<le> n \<and> n \<le> 90 then char_of (n + 32) else c) s"

definition shouldSkipGateway :: "string \<Rightarrow> bool" where
  "shouldSkipGateway url =
     list_ex (\<lambda>path. startsWith url path) [''/health'', ''/api/v1/auth'', ''/metrics'', ''/favicon.ico'']"

fun join_comma_space :: "string list \<Rightarrow> string" where
  "join_comma_space [] = []"
| "join_comma_space [x] = x"
| "join_comma_space (x # y # ys) = x @ '', '' @ join_comma_space (y # ys)"

definition extractHeaders :: "FastifyRequest \<Rightarrow> (string \<times> string) list" where
  "extractHeaders request =
     foldl (\<lambda>headers (k, v). map_set k (case v of Single s \<Rightarrow> s | Multi xs \<Rightarrow> join_comma_space xs) headers)
       [] (req_headers request)"

definition shouldSkipHeader :: "string \<Rightarrow> bool" where
  "shouldSkipHeader headerName =
     (toLowerCase headerName \<in> set [''transfer-encoding'', ''connection'', ''keep-alive'',
        ''proxy-authenticate'', ''proxy-authorization'', ''te'', ''trailers'', ''upgrade''])"

text \<open>The \<open>catch\<close> block of the handler: the reply for a thrown exception.\<close>

definition error_reply :: "exception \<Rightarrow> string \<Rightarrow> GatewayReply" where
  "error_reply error traceId =
     (case error of
        NotFoundException m \<Rightarrow>
          \<lparr>reply_status = 404, reply_headers = [(''X-Trace-Id'', traceId)],
           reply_body = Error_body m 404 traceId\<rparr>
      | BadGatewayException m \<Rightarrow>
          \<lparr>reply_status = 502, reply_headers = [(''X-Trace-Id'', traceId)],
           reply_body = Error_body m 502 traceId\<rparr>
      | _ \<Rightarrow>
          \<lparr>reply_status = 500, reply_headers = [(''X-Trace-Id'', traceId)],
           reply_body = Error_body ''Internal server error'' 500 traceId\<rparr>)"

text \<open>
  \<open>handleRequest\<close>. \<open>freshTraceId\<close> is what \<open>generateTraceId\<close> would return and
  \<open>randomIndex\<close> the load balancer's random pick. The result is the reply, the services'
  state, and the number of calls of \<open>fetch\<close>.
\<close>

definition handleRequest ::
  "upstream \<Rightarrow> nat \<Rightarrow> string \<Rightarrow> Gateway \<Rightarrow> FastifyRequest \<Rightarrow> GatewayReply \<times> Gateway \<times> nat" where
  "handleRequest env randomIndex freshTraceId gw request =
     (let traceId = header_or (map_of (req_headers request) ''x-trace-id'') freshTraceId
      in if shouldSkipGateway (req_url request)
         then (\<lparr>reply_status = 404, reply_headers = [], reply_body = Not_found_body\<rparr>, gw, 0)
         else
           (case findMatchingRoute (gw_routes gw) (req_url request) (toUpperCase (req_method request)) of
              None \<Rightarrow>
                (error_reply (NotFoundException (''Route not found: '' @ req_method request @ '' ''
                                                   @ req_url request)) traceId, gw, 0)
            | Some route \<Rightarrow>
                (let healthyTargets =
                       getHealthyTargets (gw_routes gw) (route_path route) (route_method route)
                 in if length healthyTargets = 0
                    then (error_reply (BadGatewayException ''No healthy backend services available'')
                            traceId, gw, 0)
                    else
                      (let routeKey = route_method route @ '':'' @ route_path route;
                           (selected, lb1) =
                              selectTarget (gw_loadBalancer gw) healthyTargets
                                (lbc_algorithm (route_loadBalancer route)) routeKey randomIndex
                       in case selected of
                            None \<Rightarrow>
                              (error_reply (BadGatewayException ''Unable to select backend target'')
                                 traceId, gw\<lparr>gw_loadBalancer := lb1\<rparr>, 0)
                          | Some selectedTarget \<Rightarrow>
                              (let lb2 = incrementConnectionCount lb1 (tgt_url selectedTarget);
                                   proxyRequest =
                                     \<lparr>preq_method = toUpperCase (req_method request),
                                      preq_path = or_else (split_first CHR ''?'' (req_url request)) ''/'',
                                      preq_headers = extractHeaders request,
                                      preq_body = req_body request,
                                      preq_query = req_query request,
                                      preq_userId = req_user request,
                                      preq_traceId = traceId\<rparr>;
                                   (result, cbs1, fetches) =
                                      forwardRequest env (gw_circuitBreakers gw) proxyRequest
                                        selectedTarget (route_timeout route) (route_retries route)
                                        None None;
                                   lb3 = decrementConnectionCount lb2 (tgt_url selectedTarget)
                               in case result of
                                    Inl error \<Rightarrow>
                                      (error_reply error traceId,
                                       gw\<lparr>gw_loadBalancer := lb3, gw_circuitBreakers := cbs1\<rparr>,
                                       fetches)
                                  | Inr proxyResponse \<Rightarrow>
                                      (\<lparr>reply_status = presp_statusCode proxyResponse,
                                        reply_headers =
                                          filter (\<lambda>(k, v). \<not> shouldSkipHeader k)
                                            (presp_headers proxyResponse)
                                          @ [(''X-Gateway-Target'', tgt_url selectedTarget),
                                             (''X-Gateway-Response-Time'',
                                                show_int (presp_responseTime proxyResponse)),
                                             (''X-Trace-Id'', traceId),
                                             (''X-Gateway-Route'', route_path route)],
                                        reply_body = Upstream_body (presp_body proxyResponse)\<rparr>,
                                       gw\<lparr>gw_routes :=
                                             updateTargetResponseTime (gw_routes gw) (route_path route)
                                               (route_method route) (tgt_url selectedTarget)
                                               (presp_responseTime proxyResponse),
                                          gw_loadBalancer := lb3, gw_circuitBreakers := cbs1\<rparr>,
                                       fetches))))))"

section \<open>A concrete gateway\<close>

text \<open>
  The registry as the constructor leaves it, with the UUIDs \<open>id-users\<close> and \<open>id-orders\<close>;
  a third, deactivated route with a parameter; an upstream whose first answer has the given
  status and whose later answers are 200; the breaker of the first users replica after five
  failures between 1 s and 5 s, which keep it open until 35 s; a GET request with its URL
  and parsed query.
\<close>

definition demo_routes :: routes where
  "demo_routes = initializeDefaultRoutes ''id-users'' ''id-orders'' 0"

definition demo_inactive :: RouteConfig where
  "demo_inactive =
     (defaultRoute ''/api/items/:id'' [defaultTarget ''http://item-service:3003/items'' 1 0] ROUND_ROBIN)
       \<lparr>route_isActive := False\<rparr>"

definition demo_routes_inactive :: routes where
  "demo_routes_inactive = snd (setRoute demo_routes demo_inactive ''id-items'' 0)"

definition demo_upstream :: "int \<Rightarrow> upstream" where
  "demo_upstream firstStatus =
     \<lparr>up_fetch = (\<lambda>n. if n = 1 then Responds firstStatus [(''content-type'', ''application/json'')] ''[]'' 12
                       else Responds 200 [(''content-type'', ''application/json'')] ''[]'' 12),
      up_clock = (\<lambda>n. tick 6000),
      up_buildTargetUrl = (\<lambda>baseUrl path query. ''http://user-service:3001/api/users'')\<rparr>"

definition demo_users_config :: CircuitBreakerConfig where
  "demo_users_config = \<lparr>cfg_enabled = True, cfg_threshold = 5, cfg_timeout = 30000,
                         cfg_monitorWindow = 60000, cfg_fallbackResponse = None\<rparr>"

definition demo_breakers :: circuitBreakers where
  "demo_breakers =
     recordFailure_seq Map.empty ''id-users'' ''http://user-service:3001/users'' demo_users_config
       [tick 1000, tick 2000, tick 3000, tick 4000, tick 5000]"

definition demo_gateway :: Gateway where
  "demo_gateway =
     \<lparr>gw_routes = demo_routes,
      gw_loadBalancer = \<lparr>lb_roundRobinCounters = Map.empty, lb_connectionCounts = Map.empty\<rparr>,
      gw_circuitBreakers = demo_breakers\<rparr>"

definition demo_get :: "string \<Rightarrow> (string \<times> string) list \<Rightarrow> FastifyRequest" where
  "demo_get url query =
     \<lparr>req_url = url, req_method = ''GET'', req_headers = [(''x-trace-id'', Single ''t-1'')],
      req_query = query, req_body = None, req_ip = ''10.0.0.7'', req_user = None\<rparr>"

definition demo_proxyRequest :: ProxyRequest where
  "demo_proxyRequest =
     \<lparr>preq_method = ''GET'', preq_path = ''/api/users'', preq_headers = [], preq_body = None,
      preq_query = [], preq_userId = None, preq_traceId = ''t-1''\<rparr>"

definition demo_target :: RouteTarget where
  "demo_target = defaultTarget ''http://user-service:3001/users'' 1 0"

text \<open>
  An empty cache with the default configuration, and one whose byte limit is 10.
\<close>

definition demo_cache :: CacheService where
  "demo_cache =
     \<lparr>cs_cache = [], cs_hits = 0, cs_misses = 0, cs_evictions = 0,
      cs_config = \<lparr>cc_maxSize = 1000, cc_maxMemory = 52428800, cc_defaultTTL = 300000,
                    cc_cleanupInterval = 60000\<rparr>\<rparr>"

definition demo_small_cache :: CacheService where
  "demo_small_cache =
     \<lparr>cs_cache = [], cs_hits = 0, cs_misses = 0, cs_evictions = 0,
      cs_config = \<lparr>cc_maxSize = 1000, cc_maxMemory = 10, cc_defaultTTL = 300000,
                    cc_cleanupInterval = 60000\<rparr>\<rparr>"

section \<open>Properties of the rate limiter\<close>

lemma checkSingleRule_live:
  assumes "ws k = Some w" "now < w_resetTime w"
  shows "checkSingleRule ws k rule now =
           (if rule_limit rule \<le> w_count w
            then (\<lparr>r_allowed = False, r_totalHits = w_count w, r_remainingHits = Hits 0,
                   r_resetTime = w_resetTime w,
                   r_retryAfter = Some (ceil_div1000 (w_resetTime w - now))\<rparr>, ws)
            else (\<lparr>r_allowed = True, r_totalHits = w_count w + 1,
                   r_remainingHits = Hits (rule_limit rule - (w_count w + 1)),
                   r_resetTime = w_resetTime w, r_retryAfter = None\<rparr>,
                  ws(k \<mapsto> w\<lparr>w_count := w_count w + 1\<rparr>)))"
  using assms by (simp add: checkSingleRule_def Let_def)

lemma checkSingleRule_fresh:
  assumes "ws k = None \<or> (\<exists>w. ws k = Some w \<and> w_resetTime w \<le> now)"
  shows "snd (checkSingleRule ws k rule now) k =
           Some \<lparr>w_count = (if 0 < rule_limit rule then 1 else 0),
                 w_resetTime = now + rule_window rule, w_firstRequest = now\<rparr>"
    and "r_resetTime (fst (checkSingleRule ws k rule now)) = now + rule_window rule"
    and "r_allowed (fst (checkSingleRule ws k rule now)) = (0 < rule_limit rule)"
  using assms by (auto simp add: checkSingleRule_def Let_def split: if_splits)

lemma checkSingleRule_other:
  "k' \<noteq> k \<Longrightarrow> snd (checkSingleRule ws k' r t) k = ws k"
  by (auto simp add: checkSingleRule_def Let_def split: option.splits if_splits)

lemma checkSingleRule_local:
  assumes "ws k = ws2 k"
  shows "fst (checkSingleRule ws k r t) = fst (checkSingleRule ws2 k r t)"
    and "snd (checkSingleRule ws k r t) k = snd (checkSingleRule ws2 k r t) k"
  using assms by (auto simp add: checkSingleRule_def Let_def split: option.splits if_splits)

lemma checkRules_frame:
  assumes "filter (\<lambda>r. \<not> skipped r rq \<and> generateKey rq (rule_key r) = k) rules = []"
  shows "snd (checkRules ws rq t acc rules) k = ws k"
  using assms
proof (induction rules arbitrary: ws acc)
  case Nil
  then show ?case by simp
next
  case (Cons r rules)
  from Cons.prems have rest: "filter (\<lambda>r. \<not> skipped r rq \<and> generateKey rq (rule_key r) = k) rules = []"
    and r: "skipped r rq \<or> generateKey rq (rule_key r) \<noteq> k"
    by (auto split: if_splits)
  show ?case
  proof (cases "skipped r rq")
    case True
    then show ?thesis using Cons.IH[OF rest] by simp
  next
    case False
    then have ne: "generateKey rq (rule_key r) \<noteq> k" using r by simp
    obtain res ws1 where s: "checkSingleRule ws (generateKey rq (rule_key r)) r t = (res, ws1)"
      by (cases "checkSingleRule ws (generateKey rq (rule_key r)) r t")
    have "ws1 k = ws k" using checkSingleRule_other[OF ne, of ws r t] s by simp
    then show ?thesis using False s Cons.IH[OF rest, of ws1] by simp
  qed
qed

lemma checkRules_sole:
  assumes "filter (\<lambda>r. \<not> skipped r rq \<and> generateKey rq (rule_key r) = k) rules = [rule]"
  shows "(snd (checkRules ws rq t acc rules) k = ws k \<and> \<not> r_allowed (fst (checkRules ws rq t acc rules)))
       \<or> (snd (checkRules ws rq t acc rules) k = snd (checkSingleRule ws k rule t) k \<and>
          (r_allowed (fst (checkRules ws rq t acc rules))
             \<longrightarrow> r_allowed (fst (checkSingleRule ws k rule t))))"
  using assms
proof (induction rules arbitrary: ws acc)
  case Nil
  then show ?case by simp
next
  case (Cons r rules)
  let ?P = "\<lambda>r. \<not> skipped r rq \<and> generateKey rq (rule_key r) = k"
  show ?case
  proof (cases "?P r")
    case True
    then have req: "r = rule" and rest: "filter ?P rules = []"
      using Cons.prems by auto
    obtain res1 ws1 where s: "checkSingleRule ws k rule t = (res1, ws1)"
      by (cases "checkSingleRule ws k rule t")
    show ?thesis
    proof (cases "r_allowed res1")
      case False
      then show ?thesis using True req s by simp
    next
      case al: True
      have "snd (checkRules ws1 rq t a rules) k = ws1 k" for a
        using checkRules_frame[OF rest] by simp
      then show ?thesis using True req s al by simp
    qed
  next
    case False
    then have rest: "filter ?P rules = [rule]" using Cons.prems by auto
    show ?thesis
    proof (cases "skipped r rq")
      case True
      then show ?thesis using Cons.IH[OF rest] by simp
    next
      case ns: False
      then have ne: "generateKey rq (rule_key r) \<noteq> k" using False by simp
      obtain res ws1 where s: "checkSingleRule ws (generateKey rq (rule_key r)) r t = (res, ws1)"
        by (cases "checkSingleRule ws (generateKey rq (rule_key r)) r t")
      have same: "ws1 k = ws k" using checkSingleRule_other[OF ne, of ws r t] s by simp
      show ?thesis
      proof (cases "r_allowed res")
        case False
        then show ?thesis using ns s same by simp
      next
        case True
        have loc: "fst (checkSingleRule ws1 k rule t) = fst (checkSingleRule ws k rule t)"
          "snd (checkSingleRule ws1 k rule t) k = snd (checkSingleRule ws k rule t) k"
          using checkSingleRule_local[of ws1 k ws rule t] same by simp_all
        show ?thesis
          using ns s True same loc Cons.IH[OF rest, of ws1] by (auto split: if_splits)
      qed
    qed
  qed
qed

lemma checkRateLimit_sole:
  assumes "filter (\<lambda>r. \<not> skipped r rq \<and> generateKey rq (rule_key r) = k) rules = [rule]"
  shows "(snd (checkRateLimit ws rq rules t) k = ws k \<and> \<not> r_allowed (fst (checkRateLimit ws rq rules t)))
       \<or> (snd (checkRateLimit ws rq rules t) k = snd (checkSingleRule ws k rule t) k \<and>
          (r_allowed (fst (checkRateLimit ws rq rules t))
             \<longrightarrow> r_allowed (fst (checkSingleRule ws k rule t))))"
  unfolding checkRateLimit_def using checkRules_sole[OF assms] by blast

lemma allowed_in_window:
  assumes "\<forall>(rq, t) \<in> set calls.
             filter (\<lambda>r. \<not> skipped r rq \<and> generateKey rq (rule_key r) = k) rules = [rule]
             \<and> lo \<le> t \<and> t < hi"
    and "hi \<le> lo + rule_window rule"
    and "((ws k = None \<or> (\<exists>w. ws k = Some w \<and> w_resetTime w \<le> lo)) \<and> b = max 0 (rule_limit rule))
       \<or> (\<exists>w. ws k = Some w \<and> hi \<le> w_resetTime w \<and> b = max 0 (rule_limit rule - w_count w))"
  shows "int (length (filter r_allowed (fst (checkRateLimit_seq ws rules calls)))) \<le> b"
  using assms(1,3)
proof (induction calls arbitrary: ws b)
  case Nil
  then show ?case by auto
next
  case (Cons c calls)
  obtain rq t where c: "c = (rq, t)" by (cases c)
  let ?L = "rule_limit rule"
  let ?res = "fst (checkRateLimit ws rq rules t)"
  let ?ws' = "snd (checkRateLimit ws rq rules t)"
  let ?res1 = "fst (checkSingleRule ws k rule t)"
  let ?ws1 = "snd (checkSingleRule ws k rule t)"
  from Cons.prems(1) c have sole: "filter (\<lambda>r. \<not> skipped r rq \<and> generateKey rq (rule_key r) = k) rules = [rule]"
    and t: "lo \<le> t" "t < hi"
    and rest: "\<forall>(rq, t) \<in> set calls.
             filter (\<lambda>r. \<not> skipped r rq \<and> generateKey rq (rule_key r) = k) rules = [rule]
             \<and> lo \<le> t \<and> t < hi"
    by auto
  have unfold: "int (length (filter r_allowed (fst (checkRateLimit_seq ws rules (c # calls)))))
      = (if r_allowed ?res then 1 else 0)
        + int (length (filter r_allowed (fst (checkRateLimit_seq ?ws' rules calls))))"
    using c by (simp add: split_beta)
  from checkRateLimit_sole[OF sole, of ws t]
  consider (untouched) "?ws' k = ws k" "\<not> r_allowed ?res"
    | (evaluated) "?ws' k = ?ws1 k" "r_allowed ?res \<longrightarrow> r_allowed ?res1"
    by blast
  then show ?case
  proof cases
    case untouched
    have "((?ws' k = None \<or> (\<exists>w. ?ws' k = Some w \<and> w_resetTime w \<le> lo)) \<and> b = max 0 ?L)
       \<or> (\<exists>w. ?ws' k = Some w \<and> hi \<le> w_resetTime w \<and> b = max 0 (?L - w_count w))"
      using Cons.prems(2) untouched(1) by simp
    from Cons.IH[of ?ws' b, OF rest this] show ?thesis using unfold untouched(2) by simp
  next
    case evaluated
    from Cons.prems(2) show ?thesis
    proof
      assume stale: "(ws k = None \<or> (\<exists>w. ws k = Some w \<and> w_resetTime w \<le> lo)) \<and> b = max 0 ?L"
      then have st: "ws k = None \<or> (\<exists>w. ws k = Some w \<and> w_resetTime w \<le> t)"
        using t(1) by auto
      let ?w' = "\<lparr>w_count = (if 0 < ?L then 1 else 0), w_resetTime = t + rule_window rule,
                   w_firstRequest = t\<rparr>"
      have w': "?ws' k = Some ?w'"
        using evaluated(1) checkSingleRule_fresh(1)[of ws k t rule] st by simp
      have al: "r_allowed ?res1 = (0 < ?L)"
        using checkSingleRule_fresh(3)[of ws k t rule] st by simp
      have "hi \<le> w_resetTime ?w'" using assms(2) t(1) by simp
      with w' have "((?ws' k = None \<or> (\<exists>w. ?ws' k = Some w \<and> w_resetTime w \<le> lo))
            \<and> max 0 (?L - w_count ?w') = max 0 ?L)
         \<or> (\<exists>w. ?ws' k = Some w \<and> hi \<le> w_resetTime w
               \<and> max 0 (?L - w_count ?w') = max 0 (?L - w_count w))"
        by simp
      from Cons.IH[of ?ws' "max 0 (?L - w_count ?w')", OF rest this]
      have "int (length (filter r_allowed (fst (checkRateLimit_seq ?ws' rules calls))))
              \<le> max 0 (?L - w_count ?w')" .
      then show ?thesis using unfold evaluated(2) al stale by (auto split: if_splits)
    next
      assume "\<exists>w. ws k = Some w \<and> hi \<le> w_resetTime w \<and> b = max 0 (?L - w_count w)"
      then obtain w where w: "ws k = Some w" "hi \<le> w_resetTime w" "b = max 0 (?L - w_count w)"
        by blast
      have lt: "t < w_resetTime w" using t(2) w(2) by simp
      note live = checkSingleRule_live[of ws k w t rule, OF w(1) lt]
      show ?thesis
      proof (cases "?L \<le> w_count w")
        case True
        then have "?ws' k = ws k" "\<not> r_allowed ?res"
          using live evaluated by simp_all
        moreover have "(\<exists>w. ?ws' k = Some w \<and> hi \<le> w_resetTime w \<and> b = max 0 (?L - w_count w))"
          using calculation(1) w by simp
        then have "((?ws' k = None \<or> (\<exists>w. ?ws' k = Some w \<and> w_resetTime w \<le> lo)) \<and> b = max 0 ?L)
           \<or> (\<exists>w. ?ws' k = Some w \<and> hi \<le> w_resetTime w \<and> b = max 0 (?L - w_count w))"
          by blast
        from Cons.IH[of ?ws' b, OF rest this] show ?thesis using unfold calculation(2) by simp
      next
        case False
        let ?w' = "w\<lparr>w_count := w_count w + 1\<rparr>"
        have w': "?ws' k = Some ?w'" using live evaluated(1) False by simp
        then have "((?ws' k = None \<or> (\<exists>w. ?ws' k = Some w \<and> w_resetTime w \<le> lo))
              \<and> max 0 (?L - w_count ?w') = max 0 ?L)
           \<or> (\<exists>w. ?ws' k = Some w \<and> hi \<le> w_resetTime w
                 \<and> max 0 (?L - w_count ?w') = max 0 (?L - w_count w))"
          using w(2) by simp
        from Cons.IH[of ?ws' "max 0 (?L - w_count ?w')", OF rest this]
        have "int (length (filter r_allowed (fst (checkRateLimit_seq ?ws' rules calls))))
                \<le> max 0 (?L - w_count ?w')" .
        then show ?thesis using unfold False w(3) by (auto split: if_splits)
      qed
    qed
  qed
qed

lemma checkRateLimit_single:
  "\<not> skipped rule req \<Longrightarrow>
   checkRateLimit ws req [rule] now = checkSingleRule ws (generateKey req (rule_key rule)) rule now"
  by (simp add: checkRateLimit_def checkSingleRule_def Let_def split: option.splits)

lemma checkSingleRule_saturated:
  assumes "ws k = Some w" "rule_limit rule \<le> w_count w" "now < w_resetTime w"
  shows "checkSingleRule ws k rule now =
           (\<lparr>r_allowed = False, r_totalHits = w_count w, r_remainingHits = Hits 0,
             r_resetTime = w_resetTime w,
             r_retryAfter = Some (ceil_div1000 (w_resetTime w - now))\<rparr>, ws)"
  using assms by (simp add: checkSingleRule_def)

lemma ceil_div1000_real: "ceil_div1000 x = \<lceil>real_of_int x / 1000\<rceil>"
  unfolding ceil_div1000_def
  by (simp add: ceiling_def floor_divide_of_int_eq[where ?'a=real, symmetric] del: floor_divide_of_int_eq)

text \<open>
  Claim C1 (rate-limit linearity). Take a rule with limit \<open>L\<close> and window \<open>W\<close> in a list of
  rules, and calls of \<open>checkRateLimit\<close> for which it is the one rule of the list evaluated
  under the key \<open>k\<close>. (1) When the call at \<open>now\<close> finds no window or one that has reached its
  reset time, and the later calls come from \<open>now\<close> on and before \<open>now + W\<close>, at most \<open>L\<close> of
  all these calls are allowed. (2) When the window's count has reached \<open>L\<close> and \<open>now\<close> is
  before its reset time, the rule's check is denied with \<open>remainingHits = 0\<close> and
  \<open>retryAfter = ceil((resetTime - now) / 1000)\<close>, the table is unchanged, and the call of
  \<open>checkRateLimit\<close> is denied. (3) The first check of the rule without a window, or at or
  after its reset time, installs a fresh window with reset time \<open>now + W\<close>, first request
  \<open>now\<close> and the count started again (1 for the allowed call, 0 when the limit is not
  positive). (4) For the list that holds just this rule, \<open>checkRateLimit\<close> returns the
  decision and the table of the rule's check.
\<close>

theorem rate_limit_linearity:
  assumes "filter (\<lambda>r. \<not> skipped r req \<and> generateKey req (rule_key r) = k) rules = [rule]"
    and "\<forall>(rq, t) \<in> set calls.
           filter (\<lambda>r. \<not> skipped r rq \<and> generateKey rq (rule_key r) = k) rules = [rule]
           \<and> now \<le> t \<and> t < now + rule_window rule"
  shows "((case ws k of None \<Rightarrow> True | Some w \<Rightarrow> w_resetTime w \<le> now) \<and> 0 \<le> rule_limit rule
            \<longrightarrow> int (length (filter r_allowed
                   (fst (checkRateLimit_seq ws rules ((req, now) # calls))))) \<le> rule_limit rule)
       \<and> (\<forall>w. ws k = Some w \<and> rule_limit rule \<le> w_count w \<and> now < w_resetTime w
            \<longrightarrow> checkSingleRule ws k rule now =
                  (\<lparr>r_allowed = False, r_totalHits = w_count w, r_remainingHits = Hits 0,
                    r_resetTime = w_resetTime w,
                    r_retryAfter = Some \<lceil>real_of_int (w_resetTime w - now) / 1000\<rceil>\<rparr>, ws)
                \<and> \<not> r_allowed (fst (checkRateLimit ws req rules now))
                \<and> snd (checkRateLimit ws req rules now) k = ws k)
       \<and> ((case ws k of None \<Rightarrow> True | Some w \<Rightarrow> w_resetTime w \<le> now)
            \<longrightarrow> snd (checkSingleRule ws k rule now) k =
                  Some \<lparr>w_count = (if 0 < rule_limit rule then 1 else 0),
                        w_resetTime = now + rule_window rule, w_firstRequest = now\<rparr>)
       \<and> (rules = [rule]
            \<longrightarrow> checkRateLimit ws req rules now = checkSingleRule ws k rule now)"
    (is "?bound \<and> ?saturated \<and> ?fresh \<and> ?single")
proof -
  let ?L = "rule_limit rule"
  let ?res = "fst (checkRateLimit ws req rules now)"
  let ?ws' = "snd (checkRateLimit ws req rules now)"
  let ?res1 = "fst (checkSingleRule ws k rule now)"
  let ?ws1 = "snd (checkSingleRule ws k rule now)"
  note sole = checkRateLimit_sole[OF assms(1), of ws now]
  have rest: "\<forall>(rq, t) \<in> set calls.
           filter (\<lambda>r. \<not> skipped r rq \<and> generateKey rq (rule_key r) = k) rules = [rule]
           \<and> now \<le> t \<and> t < now + rule_window rule"
    using assms(2) .
  have "?single"
  proof
    assume r: "rules = [rule]"
    then have "\<not> skipped rule req" "generateKey req (rule_key rule) = k"
      using assms(1) by (auto split: if_splits)
    then show "checkRateLimit ws req rules now = checkSingleRule ws k rule now"
      using r checkRateLimit_single[of rule req ws now] by simp
  qed
  moreover have "?fresh"
  proof
    assume "case ws k of None \<Rightarrow> True | Some w \<Rightarrow> w_resetTime w \<le> now"
    then have "ws k = None \<or> (\<exists>w. ws k = Some w \<and> w_resetTime w \<le> now)"
      by (cases "ws k") auto
    then show "?ws1 k = Some \<lparr>w_count = (if 0 < ?L then 1 else 0),
                        w_resetTime = now + rule_window rule, w_firstRequest = now\<rparr>"
      using checkSingleRule_fresh(1)[of ws k now rule] by simp
  qed
  moreover have "?saturated"
  proof (intro allI impI)
    fix w assume a: "ws k = Some w \<and> ?L \<le> w_count w \<and> now < w_resetTime w"
    then have sat: "checkSingleRule ws k rule now =
                  (\<lparr>r_allowed = False, r_totalHits = w_count w, r_remainingHits = Hits 0,
                    r_resetTime = w_resetTime w,
                    r_retryAfter = Some \<lceil>real_of_int (w_resetTime w - now) / 1000\<rceil>\<rparr>, ws)"
      using checkSingleRule_saturated[of ws k w rule now] by (simp add: ceil_div1000_real)
    then have "\<not> r_allowed ?res" "?ws' k = ws k"
      using sole by auto
    with sat show "checkSingleRule ws k rule now =
                  (\<lparr>r_allowed = False, r_totalHits = w_count w, r_remainingHits = Hits 0,
                    r_resetTime = w_resetTime w,
                    r_retryAfter = Some \<lceil>real_of_int (w_resetTime w - now) / 1000\<rceil>\<rparr>, ws)
                \<and> \<not> r_allowed ?res \<and> ?ws' k = ws k"
      by simp
  qed
  moreover have "?bound"
  proof
    assume a: "(case ws k of None \<Rightarrow> True | Some w \<Rightarrow> w_resetTime w \<le> now) \<and> 0 \<le> ?L"
    then have st: "ws k = None \<or> (\<exists>w. ws k = Some w \<and> w_resetTime w \<le> now)"
      by (cases "ws k") auto
    have unfold: "int (length (filter r_allowed (fst (checkRateLimit_seq ws rules ((req, now) # calls)))))
      = (if r_allowed ?res then 1 else 0)
        + int (length (filter r_allowed (fst (checkRateLimit_seq ?ws' rules calls))))"
      by (simp add: split_beta)
    from sole consider (untouched) "?ws' k = ws k" "\<not> r_allowed ?res"
      | (evaluated) "?ws' k = ?ws1 k" "r_allowed ?res \<longrightarrow> r_allowed ?res1"
      by blast
    then show "int (length (filter r_allowed
                   (fst (checkRateLimit_seq ws rules ((req, now) # calls))))) \<le> ?L"
    proof cases
      case untouched
      have "((?ws' k = None \<or> (\<exists>w. ?ws' k = Some w \<and> w_resetTime w \<le> now)) \<and> max 0 ?L = max 0 ?L)
         \<or> (\<exists>w. ?ws' k = Some w \<and> now + rule_window rule \<le> w_resetTime w
               \<and> max 0 ?L = max 0 (?L - w_count w))"
        using st untouched(1) by simp
      from allowed_in_window[of calls k rules rule now "now + rule_window rule" ?ws' "max 0 ?L",
          OF rest _ this]
      show ?thesis using unfold untouched(2) a by simp
    next
      case evaluated
      let ?w' = "\<lparr>w_count = (if 0 < ?L then 1 else 0), w_resetTime = now + rule_window rule,
                   w_firstRequest = now\<rparr>"
      have w': "?ws' k = Some ?w'"
        using evaluated(1) checkSingleRule_fresh(1)[of ws k now rule] st by simp
      have al: "r_allowed ?res1 = (0 < ?L)"
        using checkSingleRule_fresh(3)[of ws k now rule] st by simp
      have "((?ws' k = None \<or> (\<exists>w. ?ws' k = Some w \<and> w_resetTime w \<le> now))
              \<and> max 0 (?L - w_count ?w') = max 0 ?L)
         \<or> (\<exists>w. ?ws' k = Some w \<and> now + rule_window rule \<le> w_resetTime w
               \<and> max 0 (?L - w_count ?w') = max 0 (?L - w_count w))"
        using w' by simp
      from allowed_in_window[of calls k rules rule now "now + rule_window rule" ?ws'
          "max 0 (?L - w_count ?w')", OF rest _ this]
      have "int (length (filter r_allowed (fst (checkRateLimit_seq ?ws' rules calls))))
              \<le> max 0 (?L - w_count ?w')" by simp
      then show ?thesis using unfold evaluated(2) al a by (auto split: if_splits)
    qed
  qed
  ultimately show ?thesis by blast
qed

lemma demo_key: "generateKey demo_req (rule_key demo_rule) = ''ip:10.0.0.7''"
  by (simp add: generateKey_def demo_req_def demo_rule_def getClientIp_def header_truthy_def
        or_else_def header_or_def split_first_def)

lemma demo_sole:
  "filter (\<lambda>r. \<not> skipped r demo_req \<and> generateKey demo_req (rule_key r) = ''ip:10.0.0.7'')
     [demo_global, demo_rule] = [demo_rule]"
proof -
  have "generateKey demo_req (rule_key demo_global) = ''global''"
    by (simp add: generateKey_def demo_global_def)
  moreover have "\<not> skipped demo_rule demo_req"
    by (simp add: skipped_def demo_rule_def)
  ultimately show ?thesis using demo_key by simp
qed

text \<open>
  The theorem at a limit of 2 per minute and client address, behind a global rule: of three
  calls in one window at most two are allowed, the first check opens the window, and a check
  on the full window is told to retry after 59 s.
\<close>

theorem rate_limit_linearity_witness:
  "int (length (filter r_allowed (fst (checkRateLimit_seq Map.empty [demo_global, demo_rule]
        [(demo_req, 1000), (demo_req, 1500), (demo_req, 2000)])))) \<le> 2
   \<and> snd (checkSingleRule Map.empty ''ip:10.0.0.7'' demo_rule 1000) ''ip:10.0.0.7'' =
         Some \<lparr>w_count = 1, w_resetTime = 61000, w_firstRequest = 1000\<rparr>
   \<and> checkSingleRule demo_windows ''ip:10.0.0.7'' demo_rule 2000 =
         (\<lparr>r_allowed = False, r_totalHits = 2, r_remainingHits = Hits 0, r_resetTime = 61000,
           r_retryAfter = Some 59\<rparr>, demo_windows)
   \<and> \<not> r_allowed (fst (checkRateLimit demo_windows demo_req [demo_global, demo_rule] 2000))"
proof -
  have rl: "rule_limit demo_rule = 2" "rule_window demo_rule = 60000"
    by (simp_all add: demo_rule_def)
  have calls: "\<forall>(rq, t) \<in> set [(demo_req, 1500), (demo_req, 2000)].
       filter (\<lambda>r. \<not> skipped r rq \<and> generateKey rq (rule_key r) = ''ip:10.0.0.7'')
         [demo_global, demo_rule] = [demo_rule]
       \<and> 1000 \<le> t \<and> t < 1000 + rule_window demo_rule"
    using demo_sole by (simp add: rl)
  have none: "\<forall>(rq, t) \<in> set ([] :: (FastifyRequest \<times> int) list).
       filter (\<lambda>r. \<not> skipped r rq \<and> generateKey rq (rule_key r) = ''ip:10.0.0.7'')
         [demo_global, demo_rule] = [demo_rule]
       \<and> 2000 \<le> t \<and> t < 2000 + rule_window demo_rule"
    by simp
  show ?thesis
    using rate_limit_linearity[OF demo_sole calls, of Map.empty]
      rate_limit_linearity[OF demo_sole none, of demo_windows]
    by (simp add: rl demo_windows_def)
qed

section \<open>Properties of the circuit breaker\<close>

lemma getCircuitBreaker_eq:
  "getCircuitBreaker cbs r u cfg t =
     (case cbs (generateKey_cb r u) of
        None \<Rightarrow> (createCircuitBreaker (generateKey_cb r u) cfg t,
                  cbs(generateKey_cb r u \<mapsto> createCircuitBreaker (generateKey_cb r u) cfg t))
      | Some cb \<Rightarrow> (cb, cbs))"
  by (simp add: getCircuitBreaker_def Let_def split: option.splits)

lemma recordFailure_window:
  assumes "cfg_enabled cfg"
  shows "\<exists>cb'. recordFailure cbs r u cfg clk (generateKey_cb r u) = Some cb' \<and>
           cb_failureWindow cb' =
             filter (\<lambda>x. x > at_now clk - cfg_monitorWindow cfg)
               ((case cbs (generateKey_cb r u) of None \<Rightarrow> [] | Some cb \<Rightarrow> cb_failureWindow cb)
                  @ [at_now clk])"
  using assms
  by (auto simp add: recordFailure_def getCircuitBreaker_eq Let_def cleanupWindow_def
        transitionToOpen_def createCircuitBreaker_def split: option.splits)

lemma recordFailure_opens:
  assumes "cfg_enabled cfg"
    and "recordFailure cbs r u cfg clk (generateKey_cb r u) = Some cb'"
    and "cfg_threshold cfg \<le> int (length (cb_failureWindow cb'))"
  shows "st_state (cb_stats cb') = OPEN"
    and "st_nextAttemptTime (cb_stats cb') = Some (at_open clk + cfg_timeout cfg)"
  using assms
  by (auto simp add: recordFailure_def getCircuitBreaker_eq Let_def cleanupWindow_def
        transitionToOpen_def createCircuitBreaker_def split: option.splits if_splits)

lemma recordFailure_below:
  assumes "cfg_enabled cfg"
    and "recordFailure cbs r u cfg clk (generateKey_cb r u) = Some cb'"
    and "int (length (cb_failureWindow cb')) < cfg_threshold cfg"
  shows "st_state (cb_stats cb') =
           (case cbs (generateKey_cb r u) of None \<Rightarrow> CLOSED | Some cb \<Rightarrow> st_state (cb_stats cb))"
  using assms
  by (auto simp add: recordFailure_def getCircuitBreaker_eq Let_def cleanupWindow_def
        transitionToOpen_def createCircuitBreaker_def split: option.splits if_splits)

lemma canExecute_open_early:
  assumes "cfg_enabled cfg" "cbs (generateKey_cb r u) = Some cb" "st_state (cb_stats cb) = OPEN"
    and "st_nextAttemptTime (cb_stats cb) = Some next" "at_now c < next"
  shows "canExecute cbs r u cfg c = (False, cbs)"
  using assms by (simp add: canExecute_def getCircuitBreaker_eq)

lemma canExecute_open_due:
  assumes "cfg_enabled cfg" "cbs (generateKey_cb r u) = Some cb" "st_state (cb_stats cb) = OPEN"
    and "st_nextAttemptTime (cb_stats cb) = Some next" "next \<le> at_now c"
  shows "canExecute cbs r u cfg c = (True, cbs(generateKey_cb r u \<mapsto> transitionToHalfOpen cb))"
  using assms by (simp add: canExecute_def getCircuitBreaker_eq)

lemma canExecute_seq_open_early:
  assumes "cfg_enabled cfg" "cbs (generateKey_cb r u) = Some cb" "st_state (cb_stats cb) = OPEN"
    and "st_nextAttemptTime (cb_stats cb) = Some next" "\<forall>c \<in> set clks. at_now c < next"
  shows "canExecute_seq cbs r u cfg clks = (replicate (length clks) False, cbs)"
  using assms(5)
proof (induction clks)
  case Nil
  then show ?case by simp
next
  case (Cons c clks)
  then show ?case
    using canExecute_open_early[of cfg cbs r u cb "next" c] assms(1-4) by simp
qed

lemma recordSuccess_half_open:
  assumes "cfg_enabled cfg" "cbs (generateKey_cb r u) = Some cb" "st_state (cb_stats cb) = HALF_OPEN"
  shows "\<exists>cb'. recordSuccess cbs r u cfg c (generateKey_cb r u) = Some cb' \<and>
           st_state (cb_stats cb') = CLOSED \<and> cb_failureWindow cb' = [] \<and>
           st_nextAttemptTime (cb_stats cb') = None"
  using assms
  by (simp add: recordSuccess_def getCircuitBreaker_eq Let_def cleanupWindow_def
        transitionToClosed_def)

lemma recordFailure_window_of:
  assumes "cfg_enabled cfg"
  shows "failureWindow_of (recordFailure cbs r u cfg clk) (generateKey_cb r u) =
           filter (\<lambda>x. x > at_now clk - cfg_monitorWindow cfg)
             (failureWindow_of cbs (generateKey_cb r u) @ [at_now clk])"
  using recordFailure_window[OF assms, of cbs r u clk]
  by (auto simp add: failureWindow_of_def)

lemma recordFailure_seq_snoc:
  "recordFailure_seq cbs r u cfg (clks @ [c]) =
     recordFailure (recordFailure_seq cbs r u cfg clks) r u cfg c"
  by (induction clks arbitrary: cbs) simp_all

lemma recordFailure_seq_window:
  assumes "cfg_enabled cfg"
    and "failureWindow_of cbs (generateKey_cb r u) = pre @ v"
    and "\<forall>c \<in> set clks. \<forall>x \<in> set v \<union> at_now ` set clks. at_now c - cfg_monitorWindow cfg < x"
  shows "\<exists>pre'. failureWindow_of (recordFailure_seq cbs r u cfg clks) (generateKey_cb r u) =
           pre' @ v @ map at_now clks"
  using assms(2,3)
proof (induction clks arbitrary: cbs pre v)
  case Nil
  then show ?case by simp
next
  case (Cons c clks)
  let ?P = "\<lambda>x. x > at_now c - cfg_monitorWindow cfg"
  let ?cbs' = "recordFailure cbs r u cfg c"
  have keep: "\<forall>x \<in> set v. ?P x" "?P (at_now c)"
    using Cons.prems(2) by auto
  have "failureWindow_of ?cbs' (generateKey_cb r u) = filter ?P (pre @ v @ [at_now c])"
    using recordFailure_window_of[OF assms(1), of cbs r u c] Cons.prems(1) by simp
  also have "\<dots> = filter ?P pre @ (v @ [at_now c])"
    using keep by simp
  finally have w: "failureWindow_of ?cbs' (generateKey_cb r u) = filter ?P pre @ (v @ [at_now c])" .
  have "\<forall>d \<in> set clks. \<forall>x \<in> set (v @ [at_now c]) \<union> at_now ` set clks.
          at_now d - cfg_monitorWindow cfg < x"
    using Cons.prems(2) by auto
  from Cons.IH[OF w this] show ?case by auto
qed

lemma recordFailure_seq_stays:
  assumes "cfg_enabled cfg"
    and "state_of cbs (generateKey_cb r u) = CLOSED"
    and "int (length (failureWindow_of cbs (generateKey_cb r u))) + int (length clks) < cfg_threshold cfg"
  shows "state_of (recordFailure_seq cbs r u cfg clks) (generateKey_cb r u) = CLOSED"
  using assms(2,3)
proof (induction clks arbitrary: cbs)
  case Nil
  then show ?case by simp
next
  case (Cons c clks)
  let ?k = "generateKey_cb r u"
  let ?cbs' = "recordFailure cbs r u cfg c"
  obtain cb' where cb': "?cbs' ?k = Some cb'"
    and win: "cb_failureWindow cb' = filter (\<lambda>x. x > at_now c - cfg_monitorWindow cfg)
               ((case cbs ?k of None \<Rightarrow> [] | Some cb \<Rightarrow> cb_failureWindow cb) @ [at_now c])"
    using recordFailure_window[OF assms(1), of cbs r u c] by blast
  have len: "length (cb_failureWindow cb') \<le> length (failureWindow_of cbs ?k) + 1"
    unfolding win failureWindow_of_def
    by (rule order_trans[OF length_filter_le]) simp
  then have below: "int (length (cb_failureWindow cb')) < cfg_threshold cfg"
    using Cons.prems(2) by simp
  have "st_state (cb_stats cb') = CLOSED"
    using recordFailure_below[OF assms(1) cb' below] Cons.prems(1)
    by (simp add: state_of_def)
  then have st: "state_of ?cbs' ?k = CLOSED"
    using cb' by (simp add: state_of_def)
  have "int (length (failureWindow_of ?cbs' ?k)) + int (length clks) < cfg_threshold cfg"
    using len Cons.prems(2) cb' by (simp add: failureWindow_of_def)
  from Cons.IH[OF st this] show ?case by simp
qed

lemma recordFailure_seq_opens:
  assumes "cfg_enabled cfg" "clks \<noteq> []" "cfg_threshold cfg \<le> int (length clks)"
    and "\<forall>c \<in> set clks. \<forall>d \<in> set clks. at_now c - cfg_monitorWindow cfg < at_now d"
  shows "state_of (recordFailure_seq cbs r u cfg clks) (generateKey_cb r u) = OPEN"
    and "nextAttemptTime_of (recordFailure_seq cbs r u cfg clks) (generateKey_cb r u) =
           Some (at_open (last clks) + cfg_timeout cfg)"
proof -
  let ?k = "generateKey_cb r u"
  let ?fin = "recordFailure_seq cbs r u cfg clks"
  let ?mid = "recordFailure_seq cbs r u cfg (butlast clks)"
  have fin: "?fin = recordFailure ?mid r u cfg (last clks)"
    using recordFailure_seq_snoc[of cbs r u cfg "butlast clks" "last clks"] assms(2) by simp
  have "\<forall>c \<in> set clks. \<forall>x \<in> set [] \<union> at_now ` set clks. at_now c - cfg_monitorWindow cfg < x"
    using assms(4) by auto
  with recordFailure_seq_window[OF assms(1), of cbs r u "failureWindow_of cbs ?k" "[]" clks]
  obtain pre' where "failureWindow_of ?fin ?k = pre' @ map at_now clks" by auto
  then have len: "cfg_threshold cfg \<le> int (length (failureWindow_of ?fin ?k))"
    using assms(3) by simp
  obtain cb' where cb': "recordFailure ?mid r u cfg (last clks) ?k = Some cb'"
    using recordFailure_window[OF assms(1), of ?mid r u "last clks"] by blast
  have "cfg_threshold cfg \<le> int (length (cb_failureWindow cb'))"
    using len cb' fin by (simp add: failureWindow_of_def)
  from recordFailure_opens[OF assms(1) cb' this] cb' fin
  show "state_of ?fin ?k = OPEN"
    and "nextAttemptTime_of ?fin ?k = Some (at_open (last clks) + cfg_timeout cfg)"
    by (simp_all add: state_of_def nextAttemptTime_of_def)
qed

text \<open>
  Claim C2 (circuit-breaker monotonicity). For a breaker keyed by route id and replica URL,
  with an enabled configuration: (1) starting \<open>CLOSED\<close>, fewer recorded failures than the
  threshold leave it \<open>CLOSED\<close>; (2) a run of \<open>recordFailure\<close> calls, at least \<open>threshold\<close>
  many and all within \<open>monitorWindow\<close> of each other, leaves it \<open>OPEN\<close> with
  \<open>nextAttemptTime\<close> set to \<open>timeout\<close> after the last failure; (3) any \<open>recordFailure\<close> after
  which the pruned failure window has reached the threshold leaves it \<open>OPEN\<close>; (4) in
  \<open>OPEN\<close>, every \<open>canExecute\<close> before \<open>nextAttemptTime\<close> returns false and changes nothing;
  (5) the first \<open>canExecute\<close> at or after \<open>nextAttemptTime\<close> returns true and moves the
  breaker to \<open>HALF_OPEN\<close>; (6) a \<open>recordSuccess\<close> in \<open>HALF_OPEN\<close> moves it to \<open>CLOSED\<close>
  with an empty failure window and no \<open>nextAttemptTime\<close>.
\<close>

theorem breaker_monotonicity:
  assumes "cfg_enabled config"
  shows "(state_of cbs (generateKey_cb routeId targetUrl) = CLOSED \<and>
          int (length (failureWindow_of cbs (generateKey_cb routeId targetUrl))) + int (length clks)
            < cfg_threshold config
          \<longrightarrow> state_of (recordFailure_seq cbs routeId targetUrl config clks)
                (generateKey_cb routeId targetUrl) = CLOSED)
       \<and> (clks \<noteq> [] \<and> cfg_threshold config \<le> int (length clks) \<and>
          (\<forall>c \<in> set clks. \<forall>d \<in> set clks. at_now c - cfg_monitorWindow config < at_now d)
          \<longrightarrow> state_of (recordFailure_seq cbs routeId targetUrl config clks)
                (generateKey_cb routeId targetUrl) = OPEN \<and>
              nextAttemptTime_of (recordFailure_seq cbs routeId targetUrl config clks)
                (generateKey_cb routeId targetUrl) = Some (at_open (last clks) + cfg_timeout config))
       \<and> (cfg_threshold config
            \<le> int (length (failureWindow_of (recordFailure cbs routeId targetUrl config clk)
                              (generateKey_cb routeId targetUrl)))
          \<longrightarrow> state_of (recordFailure cbs routeId targetUrl config clk)
                (generateKey_cb routeId targetUrl) = OPEN \<and>
              nextAttemptTime_of (recordFailure cbs routeId targetUrl config clk)
                (generateKey_cb routeId targetUrl) = Some (at_open clk + cfg_timeout config))
       \<and> (state_of cbs (generateKey_cb routeId targetUrl) = OPEN \<and>
          nextAttemptTime_of cbs (generateKey_cb routeId targetUrl) = Some nxt \<and>
          (\<forall>c \<in> set clks. at_now c < nxt)
          \<longrightarrow> canExecute_seq cbs routeId targetUrl config clks = (replicate (length clks) False, cbs))
       \<and> (state_of cbs (generateKey_cb routeId targetUrl) = OPEN \<and>
          nextAttemptTime_of cbs (generateKey_cb routeId targetUrl) = Some nxt \<and> nxt \<le> at_now clk
          \<longrightarrow> fst (canExecute cbs routeId targetUrl config clk) \<and>
              state_of (snd (canExecute cbs routeId targetUrl config clk))
                (generateKey_cb routeId targetUrl) = HALF_OPEN)
       \<and> (state_of cbs (generateKey_cb routeId targetUrl) = HALF_OPEN
          \<longrightarrow> state_of (recordSuccess cbs routeId targetUrl config clk)
                (generateKey_cb routeId targetUrl) = CLOSED \<and>
              failureWindow_of (recordSuccess cbs routeId targetUrl config clk)
                (generateKey_cb routeId targetUrl) = [] \<and>
              nextAttemptTime_of (recordSuccess cbs routeId targetUrl config clk)
                (generateKey_cb routeId targetUrl) = None)"
    (is "?stays \<and> ?opens \<and> ?step \<and> ?denies \<and> ?probe \<and> ?closes")
proof -
  let ?k = "generateKey_cb routeId targetUrl"
  have "?stays"
    using recordFailure_seq_stays[OF assms, of cbs routeId targetUrl clks] by blast
  moreover have "?opens"
    using recordFailure_seq_opens[OF assms, of clks cbs routeId targetUrl] by blast
  moreover have "?step"
  proof
    assume a: "cfg_threshold config
            \<le> int (length (failureWindow_of (recordFailure cbs routeId targetUrl config clk) ?k))"
    obtain cb' where cb': "recordFailure cbs routeId targetUrl config clk ?k = Some cb'"
      using recordFailure_window[OF assms, of cbs routeId targetUrl clk] by blast
    have "cfg_threshold config \<le> int (length (cb_failureWindow cb'))"
      using a cb' by (simp add: failureWindow_of_def)
    from recordFailure_opens[OF assms cb' this] cb'
    show "state_of (recordFailure cbs routeId targetUrl config clk) ?k = OPEN \<and>
          nextAttemptTime_of (recordFailure cbs routeId targetUrl config clk) ?k
            = Some (at_open clk + cfg_timeout config)"
      by (simp add: state_of_def nextAttemptTime_of_def)
  qed
  moreover have "?denies"
  proof
    assume a: "state_of cbs ?k = OPEN \<and> nextAttemptTime_of cbs ?k = Some nxt \<and>
               (\<forall>c \<in> set clks. at_now c < nxt)"
    then obtain cb where cb: "cbs ?k = Some cb" "st_state (cb_stats cb) = OPEN"
        "st_nextAttemptTime (cb_stats cb) = Some nxt"
      by (cases "cbs ?k") (auto simp add: state_of_def nextAttemptTime_of_def)
    show "canExecute_seq cbs routeId targetUrl config clks = (replicate (length clks) False, cbs)"
      using canExecute_seq_open_early[of config cbs routeId targetUrl cb nxt clks] assms cb a
      by blast
  qed
  moreover have "?probe"
  proof
    assume a: "state_of cbs ?k = OPEN \<and> nextAttemptTime_of cbs ?k = Some nxt \<and> nxt \<le> at_now clk"
    then obtain cb where cb: "cbs ?k = Some cb" "st_state (cb_stats cb) = OPEN"
        "st_nextAttemptTime (cb_stats cb) = Some nxt"
      by (cases "cbs ?k") (auto simp add: state_of_def nextAttemptTime_of_def)
    have "canExecute cbs routeId targetUrl config clk = (True, cbs(?k \<mapsto> transitionToHalfOpen cb))"
      using canExecute_open_due[of config cbs routeId targetUrl cb nxt clk] assms cb a by blast
    then show "fst (canExecute cbs routeId targetUrl config clk) \<and>
               state_of (snd (canExecute cbs routeId targetUrl config clk)) ?k = HALF_OPEN"
      by (simp add: state_of_def transitionToHalfOpen_def)
  qed
  moreover have "?closes"
  proof
    assume a: "state_of cbs ?k = HALF_OPEN"
    then obtain cb where cb: "cbs ?k = Some cb" "st_state (cb_stats cb) = HALF_OPEN"
      by (cases "cbs ?k") (auto simp add: state_of_def)
    from recordSuccess_half_open[of config cbs routeId targetUrl cb clk] assms cb
    show "state_of (recordSuccess cbs routeId targetUrl config clk) ?k = CLOSED \<and>
          failureWindow_of (recordSuccess cbs routeId targetUrl config clk) ?k = [] \<and>
          nextAttemptTime_of (recordSuccess cbs routeId targetUrl config clk) ?k = None"
      by (auto simp add: state_of_def failureWindow_of_def nextAttemptTime_of_def)
  qed
  ultimately show ?thesis by blast
qed

lemma demo_opened_eval:
  "demo_opened ''test-route:http://test-service:3000'' =
     Some \<lparr>cb_id = ''test-route:http://test-service:3000'', cb_config = mockConfig,
            cb_stats = \<lparr>st_state = OPEN, st_failureCount = 3, st_successCount = 0,
                        st_lastFailureTime = Some 3000, st_lastSuccessTime = None,
                        st_nextAttemptTime = Some 8000, st_totalRequests = 3,
                        st_totalFailures = 3, st_totalSuccesses = 0\<rparr>,
            cb_windowStart = 1000, cb_failureWindow = [1000, 2000, 3000]\<rparr>"
  by (simp add: demo_opened_def recordFailure_def getCircuitBreaker_eq generateKey_cb_def
        createCircuitBreaker_def cleanupWindow_def transitionToOpen_def mockConfig_def tick_def)

text \<open>
  The theorem on the scenario of the service's test suite (threshold 3, timeout 5 s,
  window 10 s): two failures keep the breaker closed, the third opens it until 8000, calls
  at 4000 and 7999 are refused, the call at 8000 is the probe, a success closes the breaker.
\<close>

theorem breaker_monotonicity_witness:
  "state_of (recordFailure_seq Map.empty ''test-route'' ''http://test-service:3000'' mockConfig
       [tick 1000, tick 2000]) ''test-route:http://test-service:3000'' = CLOSED
   \<and> state_of demo_opened ''test-route:http://test-service:3000'' = OPEN
   \<and> nextAttemptTime_of demo_opened ''test-route:http://test-service:3000'' = Some 8000
   \<and> canExecute_seq demo_opened ''test-route'' ''http://test-service:3000'' mockConfig
        [tick 4000, tick 7999] = ([False, False], demo_opened)
   \<and> fst (canExecute demo_opened ''test-route'' ''http://test-service:3000'' mockConfig (tick 8000))
   \<and> state_of (snd (canExecute demo_opened ''test-route'' ''http://test-service:3000'' mockConfig
        (tick 8000))) ''test-route:http://test-service:3000'' = HALF_OPEN
   \<and> state_of (recordSuccess demo_half_open ''test-route'' ''http://test-service:3000'' mockConfig
        (tick 13100)) ''test-route:http://test-service:3000'' = CLOSED
   \<and> failureWindow_of (recordSuccess demo_half_open ''test-route'' ''http://test-service:3000''
        mockConfig (tick 13100)) ''test-route:http://test-service:3000'' = []
   \<and> nextAttemptTime_of (recordSuccess demo_half_open ''test-route'' ''http://test-service:3000''
        mockConfig (tick 13100)) ''test-route:http://test-service:3000'' = None"
proof -
  have en: "cfg_enabled mockConfig" by (simp add: mockConfig_def)
  have k: "generateKey_cb ''test-route'' ''http://test-service:3000''
             = ''test-route:http://test-service:3000''"
    by (simp add: generateKey_cb_def)
  have cfg: "cfg_threshold mockConfig = 3" "cfg_timeout mockConfig = 5000"
    "cfg_monitorWindow mockConfig = 10000"
    by (simp_all add: mockConfig_def)
  have op: "state_of demo_opened ''test-route:http://test-service:3000'' = OPEN"
    "nextAttemptTime_of demo_opened ''test-route:http://test-service:3000'' = Some 8000"
    by (simp_all add: state_of_def nextAttemptTime_of_def demo_opened_eval)
  have ho: "state_of demo_half_open ''test-route:http://test-service:3000'' = HALF_OPEN"
    by (simp add: demo_half_open_def canExecute_def getCircuitBreaker_eq k demo_opened_eval en
          tick_def transitionToHalfOpen_def state_of_def)
  note th = breaker_monotonicity[OF en, unfolded k cfg]
  have 1: "state_of (recordFailure_seq Map.empty ''test-route'' ''http://test-service:3000'' mockConfig
       [tick 1000, tick 2000]) ''test-route:http://test-service:3000'' = CLOSED"
    using th[of Map.empty "''test-route''" "''http://test-service:3000''" "[tick 1000, tick 2000]"]
    by (simp add: k state_of_def failureWindow_of_def)
  have 2: "state_of demo_opened ''test-route:http://test-service:3000'' = OPEN
     \<and> nextAttemptTime_of demo_opened ''test-route:http://test-service:3000'' = Some 8000"
    using th[of Map.empty "''test-route''" "''http://test-service:3000''"
        "[tick 1000, tick 2000, tick 3000]"]
    by (simp add: k demo_opened_def tick_def)
  have 3: "canExecute_seq demo_opened ''test-route'' ''http://test-service:3000'' mockConfig
        [tick 4000, tick 7999] = ([False, False], demo_opened)"
    using th[of demo_opened "''test-route''" "''http://test-service:3000''"
        "[tick 4000, tick 7999]" _ 8000] op
    by (simp add: k tick_def)
  have 4: "fst (canExecute demo_opened ''test-route'' ''http://test-service:3000'' mockConfig (tick 8000))
   \<and> state_of (snd (canExecute demo_opened ''test-route'' ''http://test-service:3000'' mockConfig
        (tick 8000))) ''test-route:http://test-service:3000'' = HALF_OPEN"
    using th[of demo_opened "''test-route''" "''http://test-service:3000''" _ "tick 8000" 8000] op
    by (simp add: k tick_def)
  have 5: "state_of (recordSuccess demo_half_open ''test-route'' ''http://test-service:3000'' mockConfig
        (tick 13100)) ''test-route:http://test-service:3000'' = CLOSED
   \<and> failureWindow_of (recordSuccess demo_half_open ''test-route'' ''http://test-service:3000''
        mockConfig (tick 13100)) ''test-route:http://test-service:3000'' = []
   \<and> nextAttemptTime_of (recordSuccess demo_half_open ''test-route'' ''http://test-service:3000''
        mockConfig (tick 13100)) ''test-route:http://test-service:3000'' = None"
    using th[of demo_half_open "''test-route''" "''http://test-service:3000''" _ "tick 13100"] ho
    by (simp add: k)
  from 1 2 3 4 5 show ?thesis by simp
qed

text \<open>
  Claim C3 says that in \<open>HALF_OPEN\<close> a single \<open>recordFailure\<close> returns the breaker to \<open>OPEN\<close>
  with a fresh \<open>nextAttemptTime\<close>, however many entries are left in the failure window.
  \<open>recordFailure\<close> has no case for \<open>HALF_OPEN\<close>: it opens the breaker only when the pruned
  window has reached the threshold. Here the breaker opened by failures at 1, 2 and 3 s is
  probed at 13 s; the probe's failure at 13.05 s finds the old entries pruned, so the window
  holds one entry against a threshold of 3, the breaker stays \<open>HALF_OPEN\<close> with no
  \<open>nextAttemptTime\<close>, and the next \<open>canExecute\<close> lets traffic through.
\<close>

theorem half_open_failure_stays_half_open:
  "state_of demo_half_open ''test-route:http://test-service:3000'' = HALF_OPEN
   \<and> state_of (recordFailure demo_half_open ''test-route'' ''http://test-service:3000'' mockConfig
         (tick 13050)) ''test-route:http://test-service:3000'' = HALF_OPEN
   \<and> nextAttemptTime_of (recordFailure demo_half_open ''test-route'' ''http://test-service:3000''
         mockConfig (tick 13050)) ''test-route:http://test-service:3000'' = None
   \<and> failureWindow_of (recordFailure demo_half_open ''test-route'' ''http://test-service:3000''
         mockConfig (tick 13050)) ''test-route:http://test-service:3000'' = [13050]
   \<and> fst (canExecute (recordFailure demo_half_open ''test-route'' ''http://test-service:3000''
         mockConfig (tick 13050)) ''test-route'' ''http://test-service:3000'' mockConfig (tick 13060))"
  by (simp add: demo_half_open_def canExecute_def recordFailure_def getCircuitBreaker_eq
        generateKey_cb_def demo_opened_eval tick_def transitionToHalfOpen_def state_of_def
        nextAttemptTime_of_def failureWindow_of_def cleanupWindow_def mockConfig_def)

section \<open>Properties of the route registry\<close>

lemmas route_defs = demo_routes_def initializeDefaultRoutes_def setRoute_def defaultRoute_def
  defaultTarget_def generateRouteKey_def getRoute_def findMatchingRoute_def pathMatches_def Let_def

lemma map_of_map_set: "map_of (map_set k v m) k = Some v"
  by (induction m) auto

text \<open>
  Claim C10. \<open>findMatchingRoute\<close> looks at the \<open>isActive\<close> flag only in the pattern-matching
  fallback: (1) when the exact lookup of (method, path) finds a stored route, that route is
  returned, whatever its flag; (2) a route returned after the exact lookup missed is active,
  has the request's method and a pattern that matches the path; (3) right after \<open>setRoute\<close>
  the stored route is found under its own path and method, also when the configuration says
  \<open>isActive = false\<close>.
\<close>

theorem exact_match_ignores_isActive:
  "(getRoute rs requestPath method = Some route \<longrightarrow>
      findMatchingRoute rs requestPath method = Some route)
   \<and> (getRoute rs requestPath method = None \<and> findMatchingRoute rs requestPath method = Some route
      \<longrightarrow> route_isActive route \<and> route_method route = method \<and>
          pathMatches (route_path route) requestPath)
   \<and> findMatchingRoute (snd (setRoute rs config routeId now)) (route_path config) (route_method config)
       = Some (config\<lparr>route_id := routeId, route_createdAt := now, route_updatedAt := now\<rparr>)"
  by (auto simp add: findMatchingRoute_def find_Some_iff getRoute_def setRoute_def Let_def
        map_of_map_set)

text \<open>
  A deactivated route \<open>GET /api/items/:id\<close> next to the default routes: the request path
  \<open>/api/items/:id\<close> itself is answered with the inactive route, while \<open>/api/items/42\<close>,
  which only the pattern matches, finds no route.
\<close>

theorem exact_match_ignores_isActive_witness:
  "map_option route_isActive (findMatchingRoute demo_routes_inactive ''/api/items/:id'' ''GET'')
     = Some False
   \<and> pathMatches ''/api/items/:id'' ''/api/items/42''
   \<and> findMatchingRoute demo_routes_inactive ''/api/items/42'' ''GET'' = None"
proof -
  have 1: "map_option route_isActive (findMatchingRoute demo_routes_inactive ''/api/items/:id'' ''GET'')
     = Some False"
    using exact_match_ignores_isActive[of demo_routes "''/api/items/:id''" "''GET''" _ demo_inactive
        "''id-items''" 0]
    by (simp add: demo_routes_inactive_def demo_inactive_def defaultRoute_def)
  have 2: "pathMatches ''/api/items/:id'' ''/api/items/42''"
    by (simp add: pathMatches_def)
  have 3: "findMatchingRoute demo_routes_inactive ''/api/items/42'' ''GET'' = None"
    by (simp add: demo_routes_inactive_def demo_inactive_def route_defs)
  from 1 2 3 show ?thesis by simp
qed

section \<open>Properties of the forwarder and the gateway handler\<close>

lemma demo_breakers_eval:
  "demo_breakers ''id-users:http://user-service:3001/users'' =
     Some \<lparr>cb_id = ''id-users:http://user-service:3001/users'', cb_config = demo_users_config,
            cb_stats = \<lparr>st_state = OPEN, st_failureCount = 5, st_successCount = 0,
                        st_lastFailureTime = Some 5000, st_lastSuccessTime = None,
                        st_nextAttemptTime = Some 35000, st_totalRequests = 5,
                        st_totalFailures = 5, st_totalSuccesses = 0\<rparr>,
            cb_windowStart = 1000, cb_failureWindow = [1000, 2000, 3000, 4000, 5000]\<rparr>"
  by (simp add: demo_breakers_def recordFailure_def getCircuitBreaker_def generateKey_cb_def
        createCircuitBreaker_def cleanupWindow_def transitionToOpen_def demo_users_config_def
        tick_def Let_def)

lemma gate_denies:
  "canExecute demo_breakers ''id-users'' ''http://user-service:3001/users'' demo_users_config (tick 6000)
     = (False, demo_breakers)"
  by (simp add: canExecute_def getCircuitBreaker_def generateKey_cb_def demo_breakers_eval Let_def
        tick_def) (simp add: demo_users_config_def)

lemma forward_ok_no_gate:
  "forwardRequest (demo_upstream 200) cbs rq tg 30000 3 None None =
     (Inr \<lparr>presp_statusCode = 200, presp_headers = [(''content-type'', ''application/json'')],
           presp_body = ''[]'', presp_responseTime = 12,
           presp_targetUrl = ''http://user-service:3001/api/users'',
           presp_traceId = preq_traceId rq\<rparr>, cbs, 1)"
  by (simp add: forwardRequest_def breaker_args_def makeRequest_def demo_upstream_def Let_def)

lemmas handler_defs = handleRequest_def shouldSkipGateway_def getHealthyTargets_def
  selectTarget_def roundRobinSelection_def counter_of_def incrementConnectionCount_def
  decrementConnectionCount_def toUpperCase_def toLowerCase_def header_or_def demo_get_def
  demo_gateway_def split_first_def or_else_def extractHeaders_def shouldSkipHeader_def
  show_int_def dec_digit_def updateTargetResponseTime_def error_reply_def

lemma handle_users:
  "fst (handleRequest (demo_upstream 200) 0 ''gw_1'' demo_gateway (demo_get ''/api/users'' [])) =
       \<lparr>reply_status = 200,
          reply_headers = [(''content-type'', ''application/json''),
             (''X-Gateway-Target'', ''http://user-service:3001/users''),
             (''X-Gateway-Response-Time'', ''12''), (''X-Trace-Id'', ''t-1''),
             (''X-Gateway-Route'', ''/api/users'')],
          reply_body = Upstream_body ''[]''\<rparr>"
  "snd (snd (handleRequest (demo_upstream 200) 0 ''gw_1'' demo_gateway (demo_get ''/api/users'' []))) = 1"
  by (simp_all add: handler_defs route_defs forward_ok_no_gate)

lemma handle_users_query:
  "fst (handleRequest (demo_upstream 200) 0 ''gw_1'' demo_gateway (demo_get ''/api/users?page=2'' [(''page'', ''2'')])) =
       \<lparr>reply_status = 404, reply_headers = [(''X-Trace-Id'', ''t-1'')],
        reply_body = Error_body ''Route not found: GET /api/users?page=2'' 404 ''t-1''\<rparr>"
  "snd (snd (handleRequest (demo_upstream 200) 0 ''gw_1'' demo_gateway (demo_get ''/api/users?page=2'' [(''page'', ''2'')]))) = 0"
  by (simp_all add: handler_defs route_defs)

lemmas forward_defs = forwardRequest_def breaker_args_def demo_target_def defaultTarget_def
  canExecute_def recordFailure_def recordSuccess_def cleanupWindow_def getCircuitBreaker_def
  createCircuitBreaker_def generateKey_cb_def makeRequest_def demo_upstream_def shouldRetry_def
  show_int_def dec_digit_def demo_users_config_def demo_proxyRequest_def tick_def Let_def
  failureWindow_of_def

text \<open>
  Claim C6 says that the route found does not depend on a query string appended to the
  request URL. \<open>handleRequest\<close> passes \<open>request.url\<close>, query string included, to
  \<open>findMatchingRoute\<close> (it strips the query only for the path it forwards). With the default
  routes, \<open>GET /api/users\<close> finds the users route and is answered by the upstream, while
  \<open>GET /api/users?page=2\<close> finds no route and is answered 404 without any upstream call.
\<close>

theorem query_string_changes_route_match:
  "map_option route_id (findMatchingRoute demo_routes ''/api/users'' ''GET'') = Some ''id-users''
   \<and> findMatchingRoute demo_routes ''/api/users?page=2'' ''GET'' = None
   \<and> reply_status (fst (handleRequest (demo_upstream 200) 0 ''gw_1'' demo_gateway
                          (demo_get ''/api/users'' []))) = 200
   \<and> reply_status (fst (handleRequest (demo_upstream 200) 0 ''gw_1'' demo_gateway
                          (demo_get ''/api/users?page=2'' [(''page'', ''2'')]))) = 404
   \<and> snd (snd (handleRequest (demo_upstream 200) 0 ''gw_1'' demo_gateway
                          (demo_get ''/api/users?page=2'' [(''page'', ''2'')]))) = 0"
proof -
  have 1: "map_option route_id (findMatchingRoute demo_routes ''/api/users'' ''GET'') = Some ''id-users''"
    by (simp add: route_defs)
  have 2: "findMatchingRoute demo_routes ''/api/users?page=2'' ''GET'' = None"
    by (simp add: route_defs)
  from 1 2 handle_users handle_users_query show ?thesis by simp
qed

lemma forwardLoop_no_gate:
  "fst (snd (forwardLoop env cbs rq tg tmo rt None a le icb)) = cbs
   \<and> fst (forwardLoop env cbs rq tg tmo rt None a le icb)
       = fst (forwardLoop env cbs' rq tg tmo rt None a le icb)
   \<and> snd (snd (forwardLoop env cbs rq tg tmo rt None a le icb))
       = snd (snd (forwardLoop env cbs' rq tg tmo rt None a le icb))"
proof (induction env cbs rq tg tmo rt "None :: (CircuitBreakerConfig \<times> string) option" a le icb
    arbitrary: cbs' rule: forwardLoop.induct)
  case (1 env cbs request target timeout retries attempt lastError isCircuitBreakerError)
  show ?case
  proof (cases "attempt \<le> retries")
    case False
    then show ?thesis
      by (simp add: forwardLoop.simps[of env cbs] forwardLoop.simps[of env cbs'])
  next
    case True
    note le = this
    show ?thesis
    proof (cases "makeRequest env request target timeout (nat attempt)")
      case (Inr response)
      then show ?thesis using le
        by (simp add: forwardLoop.simps[of env cbs] forwardLoop.simps[of env cbs'])
    next
      case (Inl error)
      show ?thesis
      proof (cases "shouldRetry error attempt retries")
        case False
        then show ?thesis using le Inl
          by (simp add: forwardLoop.simps[of env cbs] forwardLoop.simps[of env cbs'])
      next
        case True
        have a: "forwardLoop env cbs request target timeout retries None attempt lastError
                   isCircuitBreakerError
               = forwardLoop env cbs request target timeout retries None (attempt + 1) (Some error)
                   (isCircuitBreakerEligibleError error)"
          using le Inl True by (subst forwardLoop.simps) (simp add: Let_def)
        have b: "forwardLoop env cbs' request target timeout retries None attempt lastError
                   isCircuitBreakerError
               = forwardLoop env cbs' request target timeout retries None (attempt + 1) (Some error)
                   (isCircuitBreakerEligibleError error)"
          using le Inl True by (subst forwardLoop.simps) (simp add: Let_def)
        show ?thesis
          unfolding a b
          using "1.hyps"[OF le Inl refl refl _ , of cbs'] True by simp
      qed
    qed
  qed
qed

lemma forwardRequest_no_gate:
  "forwardRequest env cbs rq tg tmo rt None None
     = (fst (forwardRequest env cbs' rq tg tmo rt None None), cbs,
        snd (snd (forwardRequest env cbs' rq tg tmo rt None None)))"
proof -
  have "forwardRequest env c rq tg tmo rt None None = forwardLoop env c rq tg tmo rt None 1 None False"
    for c by (simp add: forwardRequest_def breaker_args_def)
  then show ?thesis
    using forwardLoop_no_gate[of env cbs rq tg tmo rt 1 None False cbs']
    by (metis prod.collapse)
qed

text \<open>
  Behind claim C4's failure: whatever the breaker table holds, \<open>handleRequest\<close> gives the
  same reply with the same number of upstream calls, and it leaves the table as it was.
\<close>

lemma handleRequest_ignores_breakers:
  "fst (handleRequest env randomIndex freshTraceId (gw\<lparr>gw_circuitBreakers := cbs\<rparr>) request)
     = fst (handleRequest env randomIndex freshTraceId gw request)
   \<and> snd (snd (handleRequest env randomIndex freshTraceId (gw\<lparr>gw_circuitBreakers := cbs\<rparr>) request))
     = snd (snd (handleRequest env randomIndex freshTraceId gw request))
   \<and> gw_circuitBreakers (fst (snd (handleRequest env randomIndex freshTraceId gw request)))
     = gw_circuitBreakers gw"
proof -
  define F where "F = (\<lambda>rq tg tmo rt. fst (forwardRequest env Map.empty rq tg tmo rt None None))"
  define N where "N = (\<lambda>rq tg tmo rt. snd (snd (forwardRequest env Map.empty rq tg tmo rt None None)))"
  have fr: "forwardRequest env c rq tg tmo rt None None = (F rq tg tmo rt, c, N rq tg tmo rt)"
    for c rq tg tmo rt
    unfolding F_def N_def by (rule forwardRequest_no_gate)
  show ?thesis
    by (simp add: handleRequest_def Let_def fr split: option.splits sum.splits prod.splits)
qed

text \<open>
  Claim C4 says that the handler's dispatch consults the circuit breaker of the selected
  replica and answers 503 with the fallback body when it denies. \<open>handleRequest\<close> calls
  \<open>forwardRequest\<close> without the breaker configuration and the route id, so the gate inside
  the forwarder is never reached. Here the breaker of the first users replica is open until
  35 s and \<open>canExecute\<close> denies at 6 s; the handler still calls the upstream once and relays
  its 200. Given the route's configuration and id, the forwarder does fail with the fallback
  body and no upstream call, and the handler's \<open>catch\<close> would answer that exception with 500.
\<close>

theorem dispatch_ignores_open_breaker:
  "\<not> fst (canExecute (gw_circuitBreakers demo_gateway) ''id-users'' ''http://user-service:3001/users''
            demo_users_config (tick 6000))
   \<and> reply_status (fst (handleRequest (demo_upstream 200) 0 ''gw_1'' demo_gateway
                          (demo_get ''/api/users'' []))) = 200
   \<and> snd (snd (handleRequest (demo_upstream 200) 0 ''gw_1'' demo_gateway (demo_get ''/api/users'' []))) = 1
   \<and> forwardRequest (demo_upstream 200) demo_breakers demo_proxyRequest demo_target 30000 3
        (Some demo_users_config) (Some ''id-users'')
      = (Inl (ServiceUnavailableException
                (Default_fallback ''Service temporarily unavailable'' 503
                   ''Circuit breaker is OPEN'' 30)), demo_breakers, 0)
   \<and> reply_status (error_reply (ServiceUnavailableException
                (Default_fallback ''Service temporarily unavailable'' 503
                   ''Circuit breaker is OPEN'' 30)) ''t-1'') = 500"
proof -
  have 1: "\<not> fst (canExecute (gw_circuitBreakers demo_gateway) ''id-users''
             ''http://user-service:3001/users'' demo_users_config (tick 6000))"
    by (simp add: demo_gateway_def gate_denies)
  have 2: "forwardRequest (demo_upstream 200) demo_breakers demo_proxyRequest demo_target 30000 3
        (Some demo_users_config) (Some ''id-users'')
      = (Inl (ServiceUnavailableException
                (Default_fallback ''Service temporarily unavailable'' 503
                   ''Circuit breaker is OPEN'' 30)), demo_breakers, 0)"
    by (simp add: forwardRequest_def breaker_args_def demo_target_def defaultTarget_def gate_denies
          demo_upstream_def)
       (simp add: demo_users_config_def getFallbackResponse_def ceil_div1000_def)
  have 3: "reply_status (error_reply (ServiceUnavailableException
                (Default_fallback ''Service temporarily unavailable'' 503
                   ''Circuit breaker is OPEN'' 30)) ''t-1'') = 500"
    by (simp add: error_reply_def)
  from 1 2 3 handle_users show ?thesis by simp
qed

text \<open>
  Claim C5 says that every upstream status of 500 or more, connect error or timeout is
  retried while attempts remain, whatever the text of the error message. \<open>shouldRetry\<close>
  refuses every error whose message contains the character 4. With three attempts allowed,
  an upstream that answers 504 and then 200 makes the forwarder give up after one call (the
  breaker failure is recorded), while 503 and then 200 is retried and succeeds on the second
  call; a timeout is retried or not depending on whether the timeout or the URL in its
  message contains a 4.
\<close>

theorem retry_depends_on_message_text:
  "fst (forwardRequest (demo_upstream 504) Map.empty demo_proxyRequest demo_target 30000 3
          (Some demo_users_config) (Some ''id-users''))
     = Inl (BadGatewayException ''Target service error: 504'')
   \<and> snd (snd (forwardRequest (demo_upstream 504) Map.empty demo_proxyRequest demo_target 30000 3
          (Some demo_users_config) (Some ''id-users''))) = 1
   \<and> failureWindow_of
        (fst (snd (forwardRequest (demo_upstream 504) Map.empty demo_proxyRequest demo_target 30000 3
          (Some demo_users_config) (Some ''id-users''))))
        ''id-users:http://user-service:3001/users'' = [6000]
   \<and> map_sum id presp_statusCode
        (fst (forwardRequest (demo_upstream 503) Map.empty demo_proxyRequest demo_target 30000 3
          (Some demo_users_config) (Some ''id-users''))) = Inr 200
   \<and> snd (snd (forwardRequest (demo_upstream 503) Map.empty demo_proxyRequest demo_target 30000 3
          (Some demo_users_config) (Some ''id-users''))) = 2
   \<and> \<not> shouldRetry (BadGatewayException ''Target service error: 504'') 1 3
   \<and> shouldRetry (BadGatewayException ''Target service error: 503'') 1 3
   \<and> \<not> shouldRetry (RequestTimeoutException
          ''Request timeout after 4000ms to http://user-service:3001/api/users'') 1 3
   \<and> shouldRetry (RequestTimeoutException
          ''Request timeout after 30000ms to http://user-service:3001/api/users'') 1 3"
proof -
  have a: "fst (forwardRequest (demo_upstream 504) Map.empty demo_proxyRequest demo_target 30000 3
          (Some demo_users_config) (Some ''id-users''))
     = Inl (BadGatewayException ''Target service error: 504'')"
    "snd (snd (forwardRequest (demo_upstream 504) Map.empty demo_proxyRequest demo_target 30000 3
          (Some demo_users_config) (Some ''id-users''))) = 1"
    "failureWindow_of
        (fst (snd (forwardRequest (demo_upstream 504) Map.empty demo_proxyRequest demo_target 30000 3
          (Some demo_users_config) (Some ''id-users''))))
        ''id-users:http://user-service:3001/users'' = [6000]"
    by (simp_all add: forward_defs)
  have b: "map_sum id presp_statusCode
        (fst (forwardRequest (demo_upstream 503) Map.empty demo_proxyRequest demo_target 30000 3
          (Some demo_users_config) (Some ''id-users''))) = Inr 200"
    "snd (snd (forwardRequest (demo_upstream 503) Map.empty demo_proxyRequest demo_target 30000 3
          (Some demo_users_config) (Some ''id-users''))) = 2"
    by (simp_all add: forward_defs)
  have c: "\<not> shouldRetry (BadGatewayException ''Target service error: 504'') 1 3"
    "shouldRetry (BadGatewayException ''Target service error: 503'') 1 3"
    "\<not> shouldRetry (RequestTimeoutException
          ''Request timeout after 4000ms to http://user-service:3001/api/users'') 1 3"
    "shouldRetry (RequestTimeoutException
          ''Request timeout after 30000ms to http://user-service:3001/api/users'') 1 3"
    by (simp_all add: shouldRetry_def)
  from a b c show ?thesis by simp
qed

section \<open>Properties of the cache\<close>

lemma startsWith_iff: "startsWith s p \<longleftrightarrow> (\<exists>q. s = p @ q)"
  by (induction s p rule: startsWith.induct) auto

lemma includes_str_iff: "includes_str s sub \<longleftrightarrow> (\<exists>p q. s = p @ sub @ q)"
proof (induction s)
  case Nil
  then show ?case by auto
next
  case (Cons c cs)
  show ?case
  proof
    assume "includes_str (c # cs) sub"
    then consider "startsWith (c # cs) sub" | "includes_str cs sub" by auto
    then show "\<exists>p q. c # cs = p @ sub @ q"
    proof cases
      case 1
      then obtain q where "c # cs = sub @ q" by (auto simp add: startsWith_iff)
      then have "c # cs = [] @ sub @ q" by simp
      then show ?thesis by blast
    next
      case 2
      then obtain p q where "cs = p @ sub @ q" using Cons.IH by blast
      then have "c # cs = (c # p) @ sub @ q" by simp
      then show ?thesis by blast
    qed
  next
    assume "\<exists>p q. c # cs = p @ sub @ q"
    then obtain p q where pq: "c # cs = p @ sub @ q" by blast
    show "includes_str (c # cs) sub"
    proof (cases p)
      case Nil
      then have "startsWith (c # cs) sub" using pq by (auto simp add: startsWith_iff)
      then show ?thesis by simp
    next
      case (Cons a p')
      then have "cs = p' @ sub @ q" using pq by simp
      then have "includes_str cs sub" using Cons.IH by blast
      then show ?thesis by simp
    qed
  qed
qed

text \<open>
  Claim C7, as amended: \<open>shouldCacheResponse\<close> returns true if and only if the status is
  below 400 (so also for 1xx and 3xx, not only 2xx), the \<open>cache-control\<close> header, when
  present, contains neither \<open>no-cache\<close> nor \<open>no-store\<close>, and the \<open>set-cookie\<close> header is
  absent or empty.
\<close>

theorem shouldCacheResponse_iff:
  "shouldCacheResponse statusCode headers \<longleftrightarrow>
     statusCode < 400
     \<and> (\<forall>v. headers ''cache-control'' = Some v \<longrightarrow>
            \<not> (\<exists>p q. v = p @ ''no-cache'' @ q) \<and> \<not> (\<exists>p q. v = p @ ''no-store'' @ q))
     \<and> (headers ''set-cookie'' = None \<or> headers ''set-cookie'' = Some [])"
proof (cases "headers ''cache-control''")
  case None
  then show ?thesis
    by (auto simp add: shouldCacheResponse_def hdr_def Let_def split: option.splits)
next
  case (Some v)
  then show ?thesis
    by (auto simp add: shouldCacheResponse_def hdr_def Let_def includes_str_iff split: option.splits)
qed

text \<open>
  Claim C7 as stated (true only for a 2xx status) fails for a redirect: status 302 without
  headers is cacheable.
\<close>

theorem shouldCacheResponse_redirect_counterexample:
  "shouldCacheResponse 302 Map.empty \<and> \<not> (200 \<le> (302::int) \<and> (302::int) < 300)"
  by (simp add: shouldCacheResponse_def hdr_def)

text \<open>
  The amended claim at a 304 with \<open>max-age\<close>, at \<open>no-store\<close>, at a cookie and at a 404.
\<close>

theorem shouldCacheResponse_iff_witness:
  "shouldCacheResponse 304 [''cache-control'' \<mapsto> ''max-age=60'']
   \<and> \<not> shouldCacheResponse 200 [''cache-control'' \<mapsto> ''private, no-store'']
   \<and> \<not> shouldCacheResponse 200 [''set-cookie'' \<mapsto> ''sid=1'']
   \<and> \<not> shouldCacheResponse 404 Map.empty"
proof -
  have a: "\<not> includes_str ''max-age=60'' ''no-cache''" "\<not> includes_str ''max-age=60'' ''no-store''"
    by simp_all
  have 1: "shouldCacheResponse 304 [''cache-control'' \<mapsto> ''max-age=60'']"
    using shouldCacheResponse_iff[of 304 "[''cache-control'' \<mapsto> ''max-age=60'']"] a
    unfolding includes_str_iff by simp
  have "\<exists>p q. ''private, no-store'' = p @ ''no-store'' @ q"
    by (rule exI[of _ "''private, ''"], rule exI[of _ "[]"]) simp
  then have 2: "\<not> shouldCacheResponse 200 [''cache-control'' \<mapsto> ''private, no-store'']"
    using shouldCacheResponse_iff[of 200 "[''cache-control'' \<mapsto> ''private, no-store'']"]
    by simp
  have 3: "\<not> shouldCacheResponse 200 [''set-cookie'' \<mapsto> ''sid=1'']"
    using shouldCacheResponse_iff[of 200 "[''set-cookie'' \<mapsto> ''sid=1'']"] by simp
  have 4: "\<not> shouldCacheResponse 404 Map.empty"
    using shouldCacheResponse_iff[of 404 Map.empty] by simp
  from 1 2 3 4 show ?thesis by simp
qed

lemma map_of_map_delete: "map_of (map_delete k' m) k = (if k = k' then None else map_of m k)"
  by (induction m) (auto simp add: map_delete_def)

lemma map_of_map_set_other: "k' \<noteq> k \<Longrightarrow> map_of (map_set k' v m) k = map_of m k"
  by (induction m) auto

lemma evictLoop_submap:
  "evictLoop es needed maxSize m freed ev = (m1, freed1, ev1) \<Longrightarrow> map_of m1 k = Some x
     \<Longrightarrow> map_of m k = Some x"
proof (induction es arbitrary: m freed ev)
  case Nil
  then show ?case by simp
next
  case (Cons p es)
  obtain k' e where p: "p = (k', e)" by (cases p)
  show ?case
  proof (cases "needed \<le> freed \<and> int (length m) < maxSize")
    case True
    then show ?thesis using Cons.prems p by simp
  next
    case False
    then have "evictLoop es needed maxSize (map_delete k' m) (freed + e_size e) (ev + 1)
                 = (m1, freed1, ev1)"
      using Cons.prems(1) p by (auto split: if_splits)
    from Cons.IH[OF this Cons.prems(2)] show ?thesis
      by (simp add: map_of_map_delete split: if_splits)
  qed
qed

lemma set_cache_other_key:
  assumes "k1 \<noteq> k2" and "map_of (cs_cache (snd (set_cache cs k1 v ttl now))) k2 = Some x"
  shows "map_of (cs_cache cs) k2 = Some x"
proof -
  let ?S = "estimateSize v"
  let ?cs1 = "if shouldEvict cs ?S then evictEntries cs ?S else cs"
  obtain entry where entry: "cs_cache (snd (set_cache cs k1 v ttl now))
      = map_set k1 entry (cs_cache ?cs1)"
    by (simp add: set_cache_def Let_def)
  then have 1: "map_of (cs_cache ?cs1) k2 = Some x"
    using assms by (simp add: map_of_map_set_other)
  show ?thesis
  proof (cases "shouldEvict cs ?S")
    case False
    then show ?thesis using 1 by simp
  next
    case True
    obtain m1 freed1 ev1 where loop:
      "evictLoop (sort_key (\<lambda>p. e_lastAccessed (snd p)) (cs_cache cs)) ?S
         (cc_maxSize (cs_config cs)) (cs_cache cs) 0 0 = (m1, freed1, ev1)"
      by (cases "evictLoop (sort_key (\<lambda>p. e_lastAccessed (snd p)) (cs_cache cs)) ?S
         (cc_maxSize (cs_config cs)) (cs_cache cs) 0 0")
    then have "cs_cache ?cs1 = m1" using True by (simp add: evictEntries_def)
    then show ?thesis using 1 evictLoop_submap[OF loop] by simp
  qed
qed

lemma cache_isolation:
  assumes "k1 \<noteq> k2"
    and "fst (get_cache (snd (set_cache cs k1 v ttl now)) k2 later accessed) = Some v'"
  shows "\<exists>entry. map_of (cs_cache cs) k2 = Some entry \<and> e_value entry = v'"
proof -
  from assms(2) obtain x where "map_of (cs_cache (snd (set_cache cs k1 v ttl now))) k2 = Some x"
      and "e_value x = v'"
    by (auto simp add: get_cache_def split: option.splits if_splits)
  then show ?thesis using set_cache_other_key[OF assms(1)] by blast
qed

lemma hex_digit_inj: "a < 16 \<Longrightarrow> b < 16 \<Longrightarrow> hex_digit a = hex_digit b \<Longrightarrow> a = b"
proof -
  assume a: "a < 16" and b: "b < 16" and e: "hex_digit a = hex_digit b"
  have d: "distinct ''0123456789abcdef''" by simp
  have l: "length ''0123456789abcdef'' = 16" by simp
  show "a = b"
    using e a b nth_eq_iff_index_eq[OF d, of a b] unfolding hex_digit_def l by simp
qed

lemma to_hex_nonempty: "to_hex n \<noteq> []"
  by (subst to_hex.simps) simp

lemma to_hex_inj: "to_hex m = to_hex n \<Longrightarrow> m = n"
proof (induction m arbitrary: n rule: to_hex.induct)
  case (1 m)
  show ?case
  proof (cases "m < 16")
    case True
    note m = this
    show ?thesis
    proof (cases "n < 16")
      case True
      then show ?thesis using m "1.prems" hex_digit_inj[of m n]
        by (simp add: to_hex.simps[of m] to_hex.simps[of n])
    next
      case False
      then show ?thesis using m "1.prems" to_hex_nonempty[of "n div 16"]
        by (simp add: to_hex.simps[of m] to_hex.simps[of n])
    qed
  next
    case False
    note m = this
    show ?thesis
    proof (cases "n < 16")
      case True
      then show ?thesis using m "1.prems" to_hex_nonempty[of "m div 16"]
        by (simp add: to_hex.simps[of m] to_hex.simps[of n])
    next
      case False
      then have eq: "to_hex (m div 16) = to_hex (n div 16)"
        and dg: "hex_digit (m mod 16) = hex_digit (n mod 16)"
        using m "1.prems" by (simp_all add: to_hex.simps[of m] to_hex.simps[of n])
      have "m div 16 = n div 16" using "1.IH"[OF m eq] .
      moreover have "m mod 16 = n mod 16" using hex_digit_inj[OF _ _ dg] by simp
      ultimately show ?thesis by (metis div_mult_mod_eq)
    qed
  qed
qed

lemma hashString_eq_iff: "hashString a = hashString b \<longleftrightarrow> \<bar>sint (hash32 a)\<bar> = \<bar>sint (hash32 b)\<bar>"
proof
  assume "hashString a = hashString b"
  then have "nat \<bar>sint (hash32 a)\<bar> = nat \<bar>sint (hash32 b)\<bar>"
    unfolding hashString_def by (rule to_hex_inj)
  then show "\<bar>sint (hash32 a)\<bar> = \<bar>sint (hash32 b)\<bar>" by simp
next
  assume "\<bar>sint (hash32 a)\<bar> = \<bar>sint (hash32 b)\<bar>"
  then show "hashString a = hashString b" by (simp add: hashString_def)
qed

text \<open>
  Claim C8, as amended: for two requests with the same method and URL whose
  \<open>authorization\<close> header values are not empty, \<open>generateHttpCacheKey\<close> produces different
  keys exactly when the absolute values of the 32-bit hashes that \<open>hashString\<close> computes for
  the two values differ; and when they differ, whatever \<open>get\<close> returns under the second
  request's key after a \<open>set\<close> under the first request's key is the value of an entry that
  was already stored under the second key.
\<close>

theorem cache_key_personalization:
  assumes "h1 ''authorization'' = Some a1" "a1 \<noteq> []"
    and "h2 ''authorization'' = Some a2" "a2 \<noteq> []"
  shows "((generateHttpCacheKey method url (Some h1) \<noteq> generateHttpCacheKey method url (Some h2))
           = (\<bar>sint (hash32 a1)\<bar> \<noteq> \<bar>sint (hash32 a2)\<bar>))
       \<and> (\<bar>sint (hash32 a1)\<bar> \<noteq> \<bar>sint (hash32 a2)\<bar> \<longrightarrow>
            (\<forall>v'. fst (get_cache
                         (snd (set_cache cs (generateHttpCacheKey method url (Some h1)) v ttl now))
                         (generateHttpCacheKey method url (Some h2)) later accessed) = Some v'
                  \<longrightarrow> (\<exists>entry. map_of (cs_cache cs) (generateHttpCacheKey method url (Some h2))
                                  = Some entry \<and> e_value entry = v')))"
proof -
  have keys: "(generateHttpCacheKey method url (Some h1) \<noteq> generateHttpCacheKey method url (Some h2))
           = (\<bar>sint (hash32 a1)\<bar> \<noteq> \<bar>sint (hash32 a2)\<bar>)"
    using assms
    by (simp add: generateHttpCacheKey_def hdr_def or_else_def hashString_eq_iff)
  then show ?thesis using cache_isolation by blast
qed

lemmas cache_defs = set_cache_def get_cache_def shouldEvict_def getCurrentMemoryUsage_def
  estimateSize_def evictEntries_def map_delete_def within_limits_def Let_def

lemma hashString_Aa: "hashString ''Bearer Aa'' = ''903d53f''"
  by (simp add: hashString_def hash32_def hash_step_def hex_digit_def)

lemma hashString_BB: "hashString ''Bearer BB'' = ''903d53f''"
  by (simp add: hashString_def hash32_def hash_step_def hex_digit_def)

text \<open>
  Claim C8 as stated (different \<open>authorization\<close> values always give different keys) fails:
  \<open>Bearer Aa\<close> and \<open>Bearer BB\<close> have the same hash, so both requests get the key
  \<open>http:GET:/api/users:user:903d53f\<close>, and the entry stored for the first is served to the
  second.
\<close>

theorem cache_key_collision_counterexample:
  "''Bearer Aa'' \<noteq> ''Bearer BB''
   \<and> generateHttpCacheKey ''GET'' ''/api/users'' (Some [''authorization'' \<mapsto> ''Bearer Aa''])
     = generateHttpCacheKey ''GET'' ''/api/users'' (Some [''authorization'' \<mapsto> ''Bearer BB''])
   \<and> fst (get_cache
        (snd (set_cache demo_cache
                (generateHttpCacheKey ''GET'' ''/api/users'' (Some [''authorization'' \<mapsto> ''Bearer Aa'']))
                (Obj ''{\"user\":\"A\"}'') None 1000))
        (generateHttpCacheKey ''GET'' ''/api/users'' (Some [''authorization'' \<mapsto> ''Bearer BB'']))
        2000 2000)
     = Some (Obj ''{\"user\":\"A\"}'')"
  by (simp add: generateHttpCacheKey_def hdr_def or_else_def hashString_Aa hashString_BB
        cache_defs demo_cache_def)

text \<open>
  The amended claim at \<open>Bearer Aa\<close> and \<open>Bearer Ab\<close>, whose hashes differ by one: the keys
  differ, and the entry stored for the first request is not found with the second key.
\<close>

theorem cache_key_personalization_witness:
  "generateHttpCacheKey ''GET'' ''/api/users'' (Some [''authorization'' \<mapsto> ''Bearer Aa''])
     \<noteq> generateHttpCacheKey ''GET'' ''/api/users'' (Some [''authorization'' \<mapsto> ''Bearer Ab''])
   \<and> fst (get_cache
        (snd (set_cache demo_cache
                (generateHttpCacheKey ''GET'' ''/api/users'' (Some [''authorization'' \<mapsto> ''Bearer Aa'']))
                (Obj ''{\"user\":\"A\"}'') None 1000))
        (generateHttpCacheKey ''GET'' ''/api/users'' (Some [''authorization'' \<mapsto> ''Bearer Ab'']))
        2000 2000)
     = None"
proof -
  have "hash32 ''Bearer Aa'' = 0x903d53f" "hash32 ''Bearer Ab'' = 0x903d540"
    by (simp_all add: hash32_def hash_step_def)
  then have ne: "\<bar>sint (hash32 ''Bearer Aa'')\<bar> \<noteq> \<bar>sint (hash32 ''Bearer Ab'')\<bar>"
    by simp
  note th = cache_key_personalization[of "[''authorization'' \<mapsto> ''Bearer Aa'']" "''Bearer Aa''"
        "[''authorization'' \<mapsto> ''Bearer Ab'']" "''Bearer Ab''" "''GET''" "''/api/users''"
        demo_cache "Obj ''{\"user\":\"A\"}''" None 1000 2000 2000]
  have 1: "generateHttpCacheKey ''GET'' ''/api/users'' (Some [''authorization'' \<mapsto> ''Bearer Aa''])
     \<noteq> generateHttpCacheKey ''GET'' ''/api/users'' (Some [''authorization'' \<mapsto> ''Bearer Ab''])"
    using th ne by simp
  have empty: "\<not> (\<exists>entry. map_of (cs_cache demo_cache)
              (generateHttpCacheKey ''GET'' ''/api/users'' (Some [''authorization'' \<mapsto> ''Bearer Ab'']))
            = Some entry \<and> e_value entry = v')" for v'
    by (simp add: demo_cache_def)
  have 2: "fst (get_cache
        (snd (set_cache demo_cache
                (generateHttpCacheKey ''GET'' ''/api/users'' (Some [''authorization'' \<mapsto> ''Bearer Aa'']))
                (Obj ''{\"user\":\"A\"}'') None 1000))
        (generateHttpCacheKey ''GET'' ''/api/users'' (Some [''authorization'' \<mapsto> ''Bearer Ab'']))
        2000 2000)
     = None" (is "?got = None")
  proof (cases ?got)
    case None
    then show ?thesis .
  next
    case (Some v')
    have "\<exists>entry. map_of (cs_cache demo_cache)
              (generateHttpCacheKey ''GET'' ''/api/users'' (Some [''authorization'' \<mapsto> ''Bearer Ab'']))
            = Some entry \<and> e_value entry = v'"
      using th ne Some by simp
    then show ?thesis using empty by blast
  qed
  from 1 2 show ?thesis by simp
qed

lemma foldl_bytes:
  "foldl (\<lambda>totalSize p. totalSize + e_size (snd p)) z m = z + bytes m"
  by (induction m arbitrary: z) (simp_all add: bytes_def)

lemma getCurrentMemoryUsage_bytes: "getCurrentMemoryUsage cs = bytes (cs_cache cs)"
  by (simp add: getCurrentMemoryUsage_def foldl_bytes)

lemma estimateSize_nonneg: "0 \<le> estimateSize v"
  by (cases v) (simp_all add: estimateSize_def)

lemma length_map_set_le: "length (map_set k e m) \<le> length m + 1"
  by (induction m) auto

lemma keys_map_set: "fst ` set (map_set k e m) = insert k (fst ` set m)"
proof (induction m)
  case Nil
  then show ?case by simp
next
  case (Cons p m)
  obtain a b where p: "p = (a, b)" by (cases p)
  show ?case
  proof (cases "a = k")
    case True
    then show ?thesis using p by simp
  next
    case False
    then show ?thesis using p Cons.IH by (simp add: insert_commute)
  qed
qed

lemma distinct_map_set: "distinct (map fst m) \<Longrightarrow> distinct (map fst (map_set k e m))"
proof (induction m)
  case Nil
  then show ?case by simp
next
  case (Cons p m)
  obtain a b where p: "p = (a, b)" by (cases p)
  show ?case
  proof (cases "a = k")
    case True
    then show ?thesis using p Cons.prems by simp
  next
    case False
    have "a \<notin> fst ` set (map_set k e m)"
      using False Cons.prems p by (simp add: keys_map_set)
    then show ?thesis using False p Cons by simp
  qed
qed

lemma sizes_map_set:
  "list_all (\<lambda>p. 0 \<le> e_size (snd p)) m \<Longrightarrow> 0 \<le> e_size e
     \<Longrightarrow> list_all (\<lambda>p. 0 \<le> e_size (snd p)) (map_set k e m)"
  by (induction m) auto

lemma bytes_map_set_le:
  "list_all (\<lambda>p. 0 \<le> e_size (snd p)) m \<Longrightarrow> bytes (map_set k e m) \<le> bytes m + e_size e"
  by (induction m) (auto simp add: bytes_def)

lemma bytes_map_delete:
  "distinct (map fst m) \<Longrightarrow> (k, e) \<in> set m \<Longrightarrow> bytes (map_delete k m) = bytes m - e_size e"
proof (induction m)
  case Nil
  then show ?case by simp
next
  case (Cons p m)
  show ?case
  proof (cases "p = (k, e)")
    case True
    then have "k \<notin> fst ` set m" using Cons.prems(1) by auto
    then have "filter (\<lambda>p. fst p \<noteq> k) m = m" by (auto simp add: filter_id_conv)
    then show ?thesis using True by (simp add: map_delete_def bytes_def)
  next
    case False
    then have in_m: "(k, e) \<in> set m" using Cons.prems(2) by auto
    then have "fst p \<noteq> k" using Cons.prems(1) by (cases p) force
    then show ?thesis using Cons.IH in_m Cons.prems(1) by (simp add: map_delete_def bytes_def)
  qed
qed

lemma set_map_delete:
  assumes "distinct (map fst m)" "(k, e) \<in> set m"
  shows "set (map_delete k m) = set m - {(k, e)}"
proof -
  have "q = (k, e)" if "q \<in> set m" "fst q = k" for q
  proof -
    obtain a b where q: "q = (a, b)" by (cases q)
    then have "(k, b) \<in> set m" using that by simp
    then have "b = e" using assms eq_key_imp_eq_value[of m k b e] by simp
    then show ?thesis using q that by simp
  qed
  then have uniq: "\<And>q. q \<in> set m \<Longrightarrow> fst q = k \<Longrightarrow> q = (k, e)" .
  show ?thesis
  proof (rule set_eqI)
    fix q
    show "q \<in> set (map_delete k m) \<longleftrightarrow> q \<in> set m - {(k, e)}"
    proof
      assume "q \<in> set (map_delete k m)"
      then have "q \<in> set m" "fst q \<noteq> k" by (simp_all add: map_delete_def)
      then show "q \<in> set m - {(k, e)}" by auto
    next
      assume "q \<in> set m - {(k, e)}"
      then have "q \<in> set m" "q \<noteq> (k, e)" by simp_all
      then have "fst q \<noteq> k" using uniq by blast
      then show "q \<in> set (map_delete k m)" using \<open>q \<in> set m\<close> by (simp add: map_delete_def)
    qed
  qed
qed

lemma evictLoop_result:
  assumes "distinct (map fst m)" "distinct (map fst es)" "set es = set m"
    and "evictLoop es needed maxSize m freed ev = (m1, freed1, ev1)"
  shows "(m1 = [] \<or> (needed \<le> freed1 \<and> int (length m1) < maxSize))
         \<and> bytes m1 + freed1 = bytes m + freed \<and> set m1 \<subseteq> set m \<and> distinct (map fst m1)"
  using assms
proof (induction es arbitrary: m freed ev)
  case Nil
  then show ?case by simp
next
  case (Cons p es)
  obtain k e where p: "p = (k, e)" by (cases p)
  show ?case
  proof (cases "needed \<le> freed \<and> int (length m) < maxSize")
    case True
    then have "m1 = m" "freed1 = freed" using Cons.prems(4) p by simp_all
    then show ?thesis using True Cons.prems(1) by simp
  next
    case False
    let ?m' = "map_delete k m"
    have mem: "(k, e) \<in> set m" using Cons.prems(3) p by auto
    have k_es: "(k, e) \<notin> set es"
    proof
      assume "(k, e) \<in> set es"
      then have "k \<in> fst ` set es" by force
      then show False using Cons.prems(2) p by simp
    qed
    have d': "distinct (map fst ?m')"
      using Cons.prems(1) by (simp add: map_delete_def distinct_map_filter)
    have sm: "set ?m' = set m - {(k, e)}"
      using set_map_delete[OF Cons.prems(1) mem] .
    have "set es = set (p # es) - {(k, e)}" using k_es p by auto
    then have s': "set es = set ?m'" using sm Cons.prems(3) by simp
    have step: "evictLoop es needed maxSize ?m' (freed + e_size e) (ev + 1) = (m1, freed1, ev1)"
      using Cons.prems(4) False p by simp
    have des: "distinct (map fst es)" using Cons.prems(2) by simp
    from Cons.IH[OF d' des s' step]
    have ih: "m1 = [] \<or> (needed \<le> freed1 \<and> int (length m1) < maxSize)"
      "bytes m1 + freed1 = bytes ?m' + (freed + e_size e)" "set m1 \<subseteq> set ?m'"
      "distinct (map fst m1)" by simp_all
    have "bytes ?m' = bytes m - e_size e"
      using bytes_map_delete[OF Cons.prems(1) mem] .
    then have "bytes m1 + freed1 = bytes m + freed" using ih(2) by simp
    moreover have "set m1 \<subseteq> set m" using ih(3) sm by blast
    ultimately show ?thesis using ih(1,4) by simp
  qed
qed

lemma distinct_keys_sort_key:
  "distinct (map fst (sort_key f m)) = distinct (map fst m)"
  by (simp add: distinct_map)

lemma room_after_eviction:
  assumes wf: "well_formed cs" and wl: "within_limits cs"
    and fits: "estimateSize v \<le> cc_maxMemory (cs_config cs)"
    and one: "1 \<le> cc_maxSize (cs_config cs)"
  defines "cs1 \<equiv> (if shouldEvict cs (estimateSize v) then evictEntries cs (estimateSize v) else cs)"
  shows "cs_config cs1 = cs_config cs"
    and "well_formed cs1"
    and "int (length (cs_cache cs1)) < cc_maxSize (cs_config cs)"
    and "bytes (cs_cache cs1) + estimateSize v \<le> cc_maxMemory (cs_config cs)"
proof -
  let ?S = "estimateSize v"
  let ?m = "cs_cache cs"
  have goal: "cs_config cs1 = cs_config cs \<and> well_formed cs1
      \<and> int (length (cs_cache cs1)) < cc_maxSize (cs_config cs)
      \<and> bytes (cs_cache cs1) + ?S \<le> cc_maxMemory (cs_config cs)"
  proof (cases "shouldEvict cs ?S")
    case False
    then have "cs1 = cs" by (simp add: cs1_def)
    moreover have "int (length ?m) < cc_maxSize (cs_config cs)"
      "bytes ?m + ?S \<le> cc_maxMemory (cs_config cs)"
      using False by (simp_all add: shouldEvict_def getCurrentMemoryUsage_bytes split: if_splits)
    ultimately show ?thesis using wf by simp
  next
    case True
    let ?es = "sort_key (\<lambda>p. e_lastAccessed (snd p)) ?m"
    obtain m1 freed1 ev1 where loop:
      "evictLoop ?es ?S (cc_maxSize (cs_config cs)) ?m 0 0 = (m1, freed1, ev1)"
      by (cases "evictLoop ?es ?S (cc_maxSize (cs_config cs)) ?m 0 0")
    have cs1: "cs1 = cs\<lparr>cs_cache := m1, cs_evictions := cs_evictions cs + ev1\<rparr>"
      using True loop by (simp add: cs1_def evictEntries_def)
    have d: "distinct (map fst ?m)" and nn: "list_all (\<lambda>p. 0 \<le> e_size (snd p)) ?m"
      using wf by (simp_all add: well_formed_def)
    have des: "distinct (map fst ?es)" using d by (simp add: distinct_keys_sort_key)
    have ses: "set ?es = set ?m" by simp
    from evictLoop_result[OF d des ses loop]
    have r: "m1 = [] \<or> (?S \<le> freed1 \<and> int (length m1) < cc_maxSize (cs_config cs))"
      "bytes m1 + freed1 = bytes ?m + 0" "set m1 \<subseteq> set ?m" "distinct (map fst m1)"
      by simp_all
    have nn1: "list_all (\<lambda>p. 0 \<le> e_size (snd p)) m1"
      using nn r(3) by (auto simp add: list_all_iff)
    have mem: "bytes ?m \<le> cc_maxMemory (cs_config cs)"
      using wl by (simp add: within_limits_def getCurrentMemoryUsage_bytes)
    have "int (length m1) < cc_maxSize (cs_config cs) \<and> bytes m1 + ?S \<le> cc_maxMemory (cs_config cs)"
    proof (cases "m1 = []")
      case True
      then show ?thesis using one fits by (simp add: bytes_def)
    next
      case False
      then have "?S \<le> freed1" "int (length m1) < cc_maxSize (cs_config cs)" using r(1) by simp_all
      then show ?thesis using r(2) mem by simp
    qed
    then show ?thesis using cs1 r(4) nn1 by (simp add: well_formed_def)
  qed
  from goal show "cs_config cs1 = cs_config cs" by simp
  from goal show "well_formed cs1" by simp
  from goal show "int (length (cs_cache cs1)) < cc_maxSize (cs_config cs)" by simp
  from goal show "bytes (cs_cache cs1) + estimateSize v \<le> cc_maxMemory (cs_config cs)" by simp
qed

text \<open>
  Where claim C9's bound does hold: when the new entry alone fits the byte limit and the
  entry limit is at least 1, \<open>set\<close> keeps a well-formed cache within both limits (and
  well-formed).
\<close>

lemma set_cache_keeps_limits:
  assumes "well_formed cs" and "within_limits cs"
    and "estimateSize v \<le> cc_maxMemory (cs_config cs)"
    and "1 \<le> cc_maxSize (cs_config cs)"
  shows "within_limits (snd (set_cache cs k v ttl now)) \<and> well_formed (snd (set_cache cs k v ttl now))"
proof -
  let ?S = "estimateSize v"
  let ?cs1 = "if shouldEvict cs ?S then evictEntries cs ?S else cs"
  note room = room_after_eviction[OF assms]
  obtain entry where entry: "snd (set_cache cs k v ttl now)
      = ?cs1\<lparr>cs_cache := map_set k entry (cs_cache ?cs1)\<rparr>" and size: "e_size entry = ?S"
    by (simp add: set_cache_def Let_def)
  have wf1: "distinct (map fst (cs_cache ?cs1))" "list_all (\<lambda>p. 0 \<le> e_size (snd p)) (cs_cache ?cs1)"
    using room(2) by (simp_all add: well_formed_def)
  have len: "int (length (map_set k entry (cs_cache ?cs1))) \<le> cc_maxSize (cs_config cs)"
    using length_map_set_le[of k entry "cs_cache ?cs1"] room(3) by simp
  have "bytes (map_set k entry (cs_cache ?cs1)) \<le> bytes (cs_cache ?cs1) + ?S"
    using bytes_map_set_le[OF wf1(2), of k entry] size by simp
  then have mem: "bytes (map_set k entry (cs_cache ?cs1)) \<le> cc_maxMemory (cs_config cs)"
    using room(4) by simp
  have "within_limits (snd (set_cache cs k v ttl now))"
    using len mem room(1) entry by (simp add: within_limits_def getCurrentMemoryUsage_bytes)
  moreover have "well_formed (snd (set_cache cs k v ttl now))"
    using entry distinct_map_set[OF wf1(1), of k entry]
      sizes_map_set[OF wf1(2), of entry k] size estimateSize_nonneg[of v]
    by (simp add: well_formed_def)
  ultimately show ?thesis by simp
qed

text \<open>
  Claim C9 says that after every \<open>set\<close> on a cache that satisfies both limits the cache
  satisfies them again. \<open>set\<close> inserts the entry after the eviction whatever its size:
  with a byte limit of 10, storing the 6-character string (12 bytes) in the empty cache
  returns true and leaves 12 bytes in the cache.
\<close>

theorem set_exceeds_maxMemory:
  "within_limits demo_small_cache
   \<and> fst (set_cache demo_small_cache ''k'' (Str ''abcdef'') None 1000)
   \<and> getCurrentMemoryUsage (snd (set_cache demo_small_cache ''k'' (Str ''abcdef'') None 1000)) = 12
   \<and> cc_maxMemory (cs_config (snd (set_cache demo_small_cache ''k'' (Str ''abcdef'') None 1000))) = 10
   \<and> \<not> within_limits (snd (set_cache demo_small_cache ''k'' (Str ''abcdef'') None 1000))"
  by (simp add: cache_defs demo_small_cache_def)

end
